theory Spec2Isabelle
  imports Main "HOL-Library.Signed_Division" "HOL-Library.Sublist"
begin

section \<open>The hole-punch coordinator of p2p/protocol/holepunch\<close>

text \<open>
  The embedding follows the second document of \<^verbatim>\<open>options.go\<close>
  (package \<^verbatim>\<open>holepunch\<close>): the struct \<^verbatim>\<open>holePuncher\<close>, its admission
  check \<^verbatim>\<open>beginDirectConnect\<close>, \<^verbatim>\<open>DirectConnect\<close>, the worker
  \<^verbatim>\<open>directConnect\<close> with its retry loop, the rendezvous exchange
  \<^verbatim>\<open>initiateHolePunch\<close> / \<^verbatim>\<open>initiateHolePunchImpl\<close>, \<^verbatim>\<open>Close\<close> and
  the network notifiee.

  Everything the code obtains from a collaborator (the stream, the clock, the
  peerstore, the dialer, the outcome of a \<^verbatim>\<open>select\<close>) is an input of the model,
  held in a record of answers; every call the code makes on a collaborator is
  recorded, in program order, in a list of events returned next to the result.
\<close>

subsection \<open>Data\<close>

type_synonym peer_ID = string
type_synonym multiaddr = string
type_synonym bytes = string

text \<open>\<^verbatim>\<open>time.Duration\<close> and clock readings, in nanoseconds.\<close>
type_synonym duration = int

text \<open>
  Go errors. \<^verbatim>\<open>errors.New(s)\<close> is \<open>ErrorsNew s\<close>; \<^verbatim>\<open>fmt.Errorf(f, args)\<close>
  is \<open>Errorf f args\<close>, with the format string as written in the source and the
  arguments it is given; \<open>External s\<close> is an error handed back by a
  collaborator; \<open>ContextCanceled\<close> is what \<^verbatim>\<open>hp.ctx.Err()\<close> holds once
  \<^verbatim>\<open>hp.ctxCancel\<close> has run (the context has no deadline).
\<close>

datatype msg_type = CONNECT | SYNC

datatype error =
    ErrClosed
  | ErrHolePunchActive
  | ContextCanceled
  | External string
  | ErrorsNew string
  | Errorf string "fmt_arg list"
and fmt_arg =
    ArgPeer peer_ID
  | ArgErr error
  | ArgType msg_type
  | ArgInt int

text \<open>\<^verbatim>\<open>pb.HolePunch\<close>: the message kind and the encoded addresses.\<close>

record HolePunch =
  Type :: msg_type
  ObsAddrs :: "bytes list"

text \<open>The interface \<^verbatim>\<open>AddrFilter\<close>; \<^verbatim>\<open>hp.filter\<close> may be nil.\<close>

record AddrFilter =
  FilterLocal :: "peer_ID \<Rightarrow> multiaddr list \<Rightarrow> multiaddr list"
  FilterRemote :: "peer_ID \<Rightarrow> multiaddr list \<Rightarrow> multiaddr list"

text \<open>
  Helpers of the package that the file uses and does not define, taken as
  parameters: \<^verbatim>\<open>isRelayAddress\<close>, \<^verbatim>\<open>manet.IsPublicAddr\<close>,
  \<^verbatim>\<open>addrsToBytes\<close> and \<^verbatim>\<open>addrsFromBytes\<close>.
\<close>

record helpers =
  isRelayAddress :: "multiaddr \<Rightarrow> bool"
  IsPublicAddr :: "multiaddr \<Rightarrow> bool"
  addrsToBytes :: "multiaddr list \<Rightarrow> bytes list"
  addrsFromBytes :: "bytes list \<Rightarrow> multiaddr list"

text \<open>
  Modelled from the spec: \<^verbatim>\<open>removeRelayAddrs\<close> is not in the file; the spec
  says it strips every relay-routed address from the set it is given.
\<close>

definition removeRelayAddrs :: "helpers \<Rightarrow> multiaddr list \<Rightarrow> multiaddr list" where
  "removeRelayAddrs h as = filter (\<lambda>a. \<not> isRelayAddress h a) as"

text \<open>
  The struct \<^verbatim>\<open>holePuncher\<close>. \<open>ctxDone\<close> is the state of \<^verbatim>\<open>hp.ctx\<close>
  (cancelled or not), \<open>refCount\<close> the counter of the wait group, \<open>active\<close> the
  key set of the map \<^verbatim>\<open>active\<close>, \<open>filter_hp\<close> the field \<^verbatim>\<open>filter\<close>. The host, the identify service and the tracer
  are collaborators: their answers are inputs, the calls on them are events.
\<close>

record holePuncher =
  ctxDone :: bool
  refCount :: nat
  directDialTimeout :: duration
  active :: "peer_ID set"
  closed :: bool
  filter_hp :: "AddrFilter option"
  legacyBehavior :: bool

text \<open>Calls on collaborators, in the order the code makes them.\<close>

datatype event =
    EvNewStream peer_ID
  | EvStreamClose
  | EvStreamReset
  | EvSetService
  | EvReserveMemory
  | EvReleaseMemory
  | EvSetDeadline
  | EvListenAddrs
  | EvNow
  | EvSince
  | EvWriteMsg HolePunch
  | EvReadMsg
  | EvGetDirectConnection peer_ID
  | EvPeerstoreAddrs peer_ID
  | EvConnect peer_ID duration
  | EvNewTimer duration
  | EvTimerStop
  | EvHolePunchConnect peer_ID "multiaddr list" bool duration
  | TrDirectDialFailed peer_ID duration error
  | TrDirectDialSuccessful peer_ID duration
  | TrProtocolError peer_ID error
  | TrStartHolePunch peer_ID "multiaddr list" duration
  | TrHolePunchAttempt peer_ID
  | TrEndHolePunch peer_ID duration "error option"
  | TrHolePunchFinished string nat "multiaddr list" "multiaddr list" "string option"

subsection \<open>The rendezvous exchange\<close>

text \<open>
  What the stream, the clock and the listen-address function answer during one
  call of \<^verbatim>\<open>initiateHolePunchImpl\<close>: the remote peer of the stream's
  connection, the errors of \<^verbatim>\<open>SetService\<close> and \<^verbatim>\<open>ReserveMemory\<close>, the value
  of \<^verbatim>\<open>hp.listenAddrs()\<close>, the clock at \<^verbatim>\<open>start := time.Now()\<close>, the error
  of the first \<^verbatim>\<open>WriteMsg\<close>, the result of \<^verbatim>\<open>ReadMsg\<close>, the clock when
  \<^verbatim>\<open>time.Since(start)\<close> is evaluated, and the error of the second
  \<^verbatim>\<open>WriteMsg\<close>.
\<close>

record stream_env =
  remotePeer :: peer_ID
  setServiceErr :: "error option"
  reserveMemoryErr :: "error option"
  listenAddrsNow :: "multiaddr list"
  clockStart :: duration
  writeConnectErr :: "error option"
  readMsg :: "error + HolePunch"
  clockRecv :: duration
  writeSyncErr :: "error option"

text \<open>
  The four results of the Go function, \<^verbatim>\<open>(addrs, obsAddrs, rtt, err)\<close>; a nil
  slice is the empty list.
\<close>

type_synonym exchange_result = "multiaddr list \<times> multiaddr list \<times> duration \<times> error option"

definition localObsAddrs :: "helpers \<Rightarrow> holePuncher \<Rightarrow> stream_env \<Rightarrow> multiaddr list" where
  "localObsAddrs h hp str =
     (let obsAddrs = removeRelayAddrs h (listenAddrsNow str)
      in case filter_hp hp of
           None \<Rightarrow> obsAddrs
         | Some f \<Rightarrow> FilterLocal f (remotePeer str) obsAddrs)"

definition remoteAddrs :: "helpers \<Rightarrow> holePuncher \<Rightarrow> stream_env \<Rightarrow> HolePunch \<Rightarrow> multiaddr list" where
  "remoteAddrs h hp str msg =
     (let addrs = removeRelayAddrs h (addrsFromBytes h (ObsAddrs msg))
      in case filter_hp hp of
           None \<Rightarrow> addrs
         | Some f \<Rightarrow> FilterRemote f (remotePeer str) addrs)"

definition connectMsg :: "helpers \<Rightarrow> multiaddr list \<Rightarrow> HolePunch" where
  "connectMsg h obsAddrs = \<lparr>Type = CONNECT, ObsAddrs = addrsToBytes h obsAddrs\<rparr>"

definition syncMsg :: HolePunch where
  "syncMsg = \<lparr>Type = SYNC, ObsAddrs = []\<rparr>"

definition initiateHolePunchImpl ::
    "helpers \<Rightarrow> holePuncher \<Rightarrow> stream_env \<Rightarrow> exchange_result \<times> event list" where
  "initiateHolePunchImpl h hp str =
     (case setServiceErr str of
        Some err \<Rightarrow>
          (([], [], 0, Some (Errorf ''error attaching stream to holepunch service: %s'' [ArgErr err])),
           [EvSetService])
      | None \<Rightarrow>
     (case reserveMemoryErr str of
        Some err \<Rightarrow>
          (([], [], 0, Some (Errorf ''error reserving memory for stream: %s'' [ArgErr err])),
           [EvSetService, EvReserveMemory])
      | None \<Rightarrow>
     (let pre = [EvSetService, EvReserveMemory, EvSetDeadline, EvListenAddrs];
          obsAddrs = localObsAddrs h hp str
      in if length obsAddrs = 0 then
           (([], [], 0, Some (ErrorsNew ''aborting hole punch initiation as we have no public address'')),
            pre @ [EvReleaseMemory])
         else
     (let start = clockStart str;
          sent = pre @ [EvNow, EvWriteMsg (connectMsg h obsAddrs)]
      in case writeConnectErr str of
           Some err \<Rightarrow> (([], [], 0, Some err), sent @ [EvStreamReset, EvReleaseMemory])
         | None \<Rightarrow>
     (case readMsg str of
        Inl err \<Rightarrow>
          (([], [], 0, Some (Errorf ''failed to read CONNECT message from remote peer: %w'' [ArgErr err])),
           sent @ [EvReadMsg, EvReleaseMemory])
      | Inr msg \<Rightarrow>
     (let rtt = clockRecv str - start;
          got = sent @ [EvReadMsg, EvSince]
      in if Type msg \<noteq> CONNECT then
           (([], [], 0, Some (Errorf ''expect CONNECT message, got %s'' [ArgType (Type msg)])),
            got @ [EvReleaseMemory])
         else
     (let addrs = remoteAddrs h hp str msg
      in if length addrs = 0 then
           (([], [], 0, Some (ErrorsNew ''didn't receive any public addresses in CONNECT'')),
            got @ [EvReleaseMemory])
         else
     (case writeSyncErr str of
        Some err \<Rightarrow>
          (([], [], 0, Some (Errorf ''failed to send SYNC message for hole punching: %w'' [ArgErr err])),
           got @ [EvWriteMsg syncMsg, EvReleaseMemory])
      | None \<Rightarrow>
          ((addrs, obsAddrs, rtt, None),
           got @ [EvWriteMsg syncMsg, EvReleaseMemory])))))))))"

text \<open>
  What the host answers to \<^verbatim>\<open>NewStream\<close> and, after the exchange, which
  case of the \<^verbatim>\<open>select\<close> is taken, what \<^verbatim>\<open>holePunchConnect\<close> returns, the
  value of \<^verbatim>\<open>time.Since(start)\<close> after it, and what the second
  \<^verbatim>\<open>getDirectConnection\<close> returns: one record for each iteration of the
  retry loop.
\<close>

datatype select_case = TimerFired | CtxDone

record iter_env =
  newStreamErr :: "error option"
  stream :: stream_env
  selectCase :: select_case
  holePunchConnectErr :: "error option"
  punchElapsed :: duration
  directConnAfter :: "string option"

definition initiateHolePunch ::
    "helpers \<Rightarrow> holePuncher \<Rightarrow> iter_env \<Rightarrow> peer_ID \<Rightarrow> exchange_result \<times> event list" where
  "initiateHolePunch h hp ie rp =
     (case newStreamErr ie of
        Some err \<Rightarrow>
          (([], [], 0, Some (Errorf ''failed to open hole-punching stream: %w'' [ArgErr err])),
           [EvNewStream rp])
      | None \<Rightarrow>
     (case initiateHolePunchImpl h hp (stream ie) of
        ((addr, obsAddr, rtt, err), evs) \<Rightarrow>
     (case err of
        Some e \<Rightarrow>
          ((addr, obsAddr, rtt, Some (Errorf ''failed to initiateHolePunch: %w'' [ArgErr e])),
           [EvNewStream rp] @ evs @ [EvStreamReset, EvStreamClose])
      | None \<Rightarrow>
          ((addr, obsAddr, rtt, None), [EvNewStream rp] @ evs @ [EvStreamClose]))))"

subsection \<open>The worker and its retry loop\<close>

definition maxRetries :: nat where
  "maxRetries = 3"

text \<open>
  The body of the loop \<^verbatim>\<open>for i := 1; i <= maxRetries; i++\<close> for one value of
  \<open>i\<close>: either the function returns (\<open>Return\<close> with the error, \<open>None\<close> for
  nil) or the loop goes on to \<open>i + 1\<close> (\<open>Continue\<close>).
\<close>

datatype iter_result = Return "error option" | Continue

definition holePunchIteration ::
    "helpers \<Rightarrow> holePuncher \<Rightarrow> iter_env \<Rightarrow> peer_ID \<Rightarrow> nat \<Rightarrow> iter_result \<times> event list" where
  "holePunchIteration h hp ie rp i =
     (case initiateHolePunch h hp ie rp of
        ((addrs, obsAddrs, rtt, err), evs) \<Rightarrow>
     (case err of
        Some e \<Rightarrow> (Return (Some e), evs @ [TrProtocolError rp e])
      | None \<Rightarrow>
     (let synTime = rtt sdiv 2
      in case selectCase ie of
           CtxDone \<Rightarrow> (Return (Some ContextCanceled), evs @ [EvNewTimer synTime, EvTimerStop])
         | TimerFired \<Rightarrow>
     (let isClient = (if legacyBehavior hp then False else True);
          err = holePunchConnectErr ie;
          dt = punchElapsed ie;
          evs' = evs @ [EvNewTimer synTime, TrStartHolePunch rp addrs rtt, TrHolePunchAttempt rp,
                        EvHolePunchConnect rp addrs isClient (directDialTimeout hp),
                        EvSince, TrEndHolePunch rp dt err]
      in if err = None then
           (Return None,
            evs' @ [EvGetDirectConnection rp,
                    TrHolePunchFinished ''initiator'' i addrs obsAddrs (directConnAfter ie)])
         else if i = maxRetries then
           (Continue, evs' @ [TrHolePunchFinished ''initiator'' maxRetries addrs obsAddrs None])
         else (Continue, evs')))))"

function holePunchLoop ::
    "helpers \<Rightarrow> holePuncher \<Rightarrow> (nat \<Rightarrow> iter_env) \<Rightarrow> peer_ID \<Rightarrow> nat \<Rightarrow> error option \<times> event list" where
  "holePunchLoop h hp env rp i =
     (if i \<le> maxRetries then
        (case holePunchIteration h hp (env i) rp i of
           (Return r, evs) \<Rightarrow> (r, evs)
         | (Continue, evs) \<Rightarrow>
             (case holePunchLoop h hp env rp (i + 1) of
                (r, rest) \<Rightarrow> (r, evs @ rest)))
      else (Some (Errorf ''all retries for hole punch with peer %s failed'' [ArgPeer rp]), []))"
  by pat_completeness auto
termination
  by (relation "measure (\<lambda>(h, hp, env, rp, i). maxRetries + 1 - i)") auto

text \<open>
  What the host answers during one call of \<^verbatim>\<open>directConnect\<close>: the result of
  the first \<^verbatim>\<open>getDirectConnection\<close>, the peerstore's addresses of the peer,
  the error of \<^verbatim>\<open>hp.host.Connect\<close> with the value of \<^verbatim>\<open>time.Since(tstart)\<close>
  after it, and the answers of each iteration of the retry loop.
  Calls of the logger, and the arguments evaluated for them, are left out.
\<close>

record dc_env =
  directConnBefore :: "string option"
  peerstoreAddrs :: "multiaddr list"
  connectErr :: "error option"
  connectElapsed :: duration
  iter :: "nat \<Rightarrow> iter_env"

text \<open>
  The loop over the peerstore's addresses: the first address that is neither a
  relay address nor private triggers one dial; its failure leaves the loop
  (\<^verbatim>\<open>break\<close>), its success returns nil from \<^verbatim>\<open>directConnect\<close>. The boolean
  says whether the function has returned.
\<close>

fun directDial ::
    "helpers \<Rightarrow> holePuncher \<Rightarrow> dc_env \<Rightarrow> peer_ID \<Rightarrow> multiaddr list \<Rightarrow> bool \<times> event list" where
  "directDial h hp env rp [] = (False, [])"
| "directDial h hp env rp (a # as) =
     (if \<not> isRelayAddress h a \<and> IsPublicAddr h a then
        (case connectErr env of
           Some err \<Rightarrow>
             (False, [EvNow, EvConnect rp (directDialTimeout hp), EvSince,
                      TrDirectDialFailed rp (connectElapsed env) err])
         | None \<Rightarrow>
             (True, [EvNow, EvConnect rp (directDialTimeout hp), EvSince,
                     TrDirectDialSuccessful rp (connectElapsed env)]))
      else directDial h hp env rp as)"

definition directConnect ::
    "helpers \<Rightarrow> holePuncher \<Rightarrow> dc_env \<Rightarrow> peer_ID \<Rightarrow> error option \<times> event list" where
  "directConnect h hp env rp =
     (case directConnBefore env of
        Some c \<Rightarrow> (None, [EvGetDirectConnection rp])
      | None \<Rightarrow>
     (case directDial h hp env rp (peerstoreAddrs env) of
        (True, evs) \<Rightarrow> (None, [EvGetDirectConnection rp, EvPeerstoreAddrs rp] @ evs)
      | (False, evs) \<Rightarrow>
     (case holePunchLoop h hp (iter env) rp 1 of
        (r, rest) \<Rightarrow> (r, [EvGetDirectConnection rp, EvPeerstoreAddrs rp] @ evs @ rest))))"

subsection \<open>Admission, release and construction\<close>

definition newHolePuncher :: "AddrFilter option \<Rightarrow> holePuncher" where
  "newHolePuncher flt =
     \<lparr>ctxDone = False, refCount = 0, directDialTimeout = 0, active = {}, closed = False,
      filter_hp = flt, legacyBehavior = True\<rparr>"

definition beginDirectConnect :: "holePuncher \<Rightarrow> peer_ID \<Rightarrow> holePuncher \<times> error option" where
  "beginDirectConnect hp p =
     (if closed hp then (hp, Some ErrClosed)
      else if p \<in> active hp then (hp, Some ErrHolePunchActive)
      else (hp\<lparr>active := insert p (active hp)\<rparr>, None))"

text \<open>The deferred function of \<^verbatim>\<open>DirectConnect\<close>: \<^verbatim>\<open>delete(hp.active, p)\<close>.\<close>

definition endDirectConnect :: "holePuncher \<Rightarrow> peer_ID \<Rightarrow> holePuncher" where
  "endDirectConnect hp p = hp\<lparr>active := active hp - {p}\<rparr>"

text \<open>
  \<^verbatim>\<open>DirectConnect\<close> run without interference from other goroutines: the
  coordinator after the call, the error returned and the calls made.
\<close>

definition DirectConnect ::
    "helpers \<Rightarrow> holePuncher \<Rightarrow> dc_env \<Rightarrow> peer_ID \<Rightarrow> holePuncher \<times> error option \<times> event list" where
  "DirectConnect h hp env p =
     (case beginDirectConnect hp p of
        (hp', Some err) \<Rightarrow> (hp', Some err, [])
      | (hp', None) \<Rightarrow>
          (case directConnect h hp' env p of
             (r, evs) \<Rightarrow> (endDirectConnect hp' p, r, evs)))"

subsection \<open>Concurrent calls, the notifiee and Close\<close>

text \<open>
  Goroutines share the coordinator only inside its critical sections, so a run
  of the system is an interleaving of these atomic actions:
  \<^item> \<open>ACall p\<close>: some caller invokes \<^verbatim>\<open>DirectConnect(p)\<close>; the action is the
    admission \<^verbatim>\<open>beginDirectConnect\<close>, done under \<^verbatim>\<open>closeMx\<close> and
    \<^verbatim>\<open>activeMx\<close>. A rejected call has returned; an admitted one is in flight.
  \<^item> \<open>AConnected inbound relay p\<close>: the network calls \<^verbatim>\<open>Connected\<close> for a
    connection of that direction and kind to \<open>p\<close>; for an inbound relayed one
    \<^verbatim>\<open>refCount.Add(1)\<close> runs and a goroutine starts in its \<^verbatim>\<open>select\<close>.
  \<^item> \<open>AIdentified i\<close>: goroutine \<open>i\<close> leaves the \<^verbatim>\<open>select\<close> through
    \<^verbatim>\<open>IdentifyWait\<close> and calls \<^verbatim>\<open>DirectConnect\<close> (the admission); when the
    call is rejected the goroutine ends and \<^verbatim>\<open>refCount.Done()\<close> runs.
  \<^item> \<open>ACtxDone i\<close>: goroutine \<open>i\<close> leaves the \<^verbatim>\<open>select\<close> through
    \<^verbatim>\<open>ctx.Done()\<close>, possible once the context is cancelled, and ends.
  \<^item> \<open>AReturn i env\<close>: the in-flight call \<open>i\<close> finishes \<^verbatim>\<open>directConnect\<close> with
    the collaborators answering \<open>env\<close>, runs its deferred delete and returns;
    the \<^verbatim>\<open>ctx.Done()\<close> case of its \<^verbatim>\<open>select\<close> can be taken only if the
    context is cancelled.
  \<^item> \<open>ACloseLock\<close>, \<open>ACloseCancel\<close>, \<open>ACloseWait\<close>: the three steps of the one
    call of \<^verbatim>\<open>Close\<close>: \<^verbatim>\<open>closed = true\<close> under \<^verbatim>\<open>closeMx\<close>,
    \<^verbatim>\<open>ctxCancel()\<close>, and \<^verbatim>\<open>refCount.Wait()\<close> followed by \<^verbatim>\<open>return nil\<close>;
    the last is blocked while the counter is not zero.
  An action that is blocked or does not apply leaves the system as it is.
\<close>

datatype task =
    Waiting peer_ID
  | InFlight bool peer_ID
  | Finished "error option"
  | Exited

datatype close_pc = NotCalled | ClosedSet | Cancelled | CloseReturned "error option"

record sys =
  coord :: holePuncher
  tasks :: "task list"
  closeCall :: close_pc

datatype action =
    ACall peer_ID
  | AConnected bool bool peer_ID
  | AIdentified nat
  | ACtxDone nat
  | AReturn nat dc_env
  | ACloseLock
  | ACloseCancel
  | ACloseWait

definition refDone :: "holePuncher \<Rightarrow> holePuncher" where
  "refDone hp = hp\<lparr>refCount := refCount hp - 1\<rparr>"

text \<open>
  The admission of a call; \<open>spawned\<close> says that the caller is a goroutine of
  \<^verbatim>\<open>Connected\<close>.
\<close>

definition admit :: "bool \<Rightarrow> holePuncher \<Rightarrow> peer_ID \<Rightarrow> holePuncher \<times> task" where
  "admit spawned hp p =
     (case beginDirectConnect hp p of
        (hp', Some err) \<Rightarrow> ((if spawned then refDone hp' else hp'), Finished (Some err))
      | (hp', None) \<Rightarrow> (hp', InFlight spawned p))"

definition selectAllowed :: "holePuncher \<Rightarrow> dc_env \<Rightarrow> bool" where
  "selectAllowed hp env =
     (if ctxDone hp then True
      else list_all (\<lambda>i. selectCase (iter env i) = TimerFired) [1 ..< maxRetries + 1])"

fun step :: "helpers \<Rightarrow> sys \<Rightarrow> action \<Rightarrow> sys" where
  "step h s (ACall p) =
     (case admit False (coord s) p of
        (hp', t) \<Rightarrow> s\<lparr>coord := hp', tasks := tasks s @ [t]\<rparr>)"
| "step h s (AConnected inbound relay p) =
     (if inbound \<and> relay then
        s\<lparr>coord := (coord s)\<lparr>refCount := refCount (coord s) + 1\<rparr>,
          tasks := tasks s @ [Waiting p]\<rparr>
      else s)"
| "step h s (AIdentified i) =
     (if i < length (tasks s) then
        (case tasks s ! i of
           Waiting p \<Rightarrow>
             (case admit True (coord s) p of
                (hp', t) \<Rightarrow> s\<lparr>coord := hp', tasks := (tasks s)[i := t]\<rparr>)
         | _ \<Rightarrow> s)
      else s)"
| "step h s (ACtxDone i) =
     (if i < length (tasks s) \<and> ctxDone (coord s) then
        (case tasks s ! i of
           Waiting p \<Rightarrow> s\<lparr>coord := refDone (coord s), tasks := (tasks s)[i := Exited]\<rparr>
         | _ \<Rightarrow> s)
      else s)"
| "step h s (AReturn i env) =
     (if i < length (tasks s) \<and> selectAllowed (coord s) env then
        (case tasks s ! i of
           InFlight spawned p \<Rightarrow>
             (let r = fst (directConnect h (coord s) env p);
                  hp' = endDirectConnect (coord s) p
              in s\<lparr>coord := (if spawned then refDone hp' else hp'),
                   tasks := (tasks s)[i := Finished r]\<rparr>)
         | _ \<Rightarrow> s)
      else s)"
| "step h s ACloseLock =
     (if closeCall s = NotCalled then
        s\<lparr>coord := (coord s)\<lparr>closed := True\<rparr>, closeCall := ClosedSet\<rparr>
      else s)"
| "step h s ACloseCancel =
     (if closeCall s = ClosedSet then
        s\<lparr>coord := (coord s)\<lparr>ctxDone := True\<rparr>, closeCall := Cancelled\<rparr>
      else s)"
| "step h s ACloseWait =
     (if closeCall s = Cancelled \<and> refCount (coord s) = 0 then
        s\<lparr>closeCall := CloseReturned None\<rparr>
      else s)"

definition init :: "AddrFilter option \<Rightarrow> sys" where
  "init flt = \<lparr>coord = newHolePuncher flt, tasks = [], closeCall = NotCalled\<rparr>"

definition run :: "helpers \<Rightarrow> sys \<Rightarrow> action list \<Rightarrow> sys" where
  "run h s acts = foldl (step h) s acts"

text \<open>
  A task counted by \<^verbatim>\<open>refCount\<close>: a goroutine of \<^verbatim>\<open>Connected\<close> that has not
  ended.
\<close>

fun counted :: "task \<Rightarrow> bool" where
  "counted (Waiting p) = True"
| "counted (InFlight spawned p) = spawned"
| "counted (Finished r) = False"
| "counted Exited = False"

text \<open>The peer of an admitted call that has not returned.\<close>

fun inFlightTo :: "peer_ID \<Rightarrow> task \<Rightarrow> bool" where
  "inFlightTo p (InFlight spawned q) = (p = q)"
| "inFlightTo p (Waiting q) = False"
| "inFlightTo p (Finished r) = False"
| "inFlightTo p Exited = False"

subsection \<open>Reading results and traces\<close>

text \<open>The error and the round-trip time returned by \<^verbatim>\<open>hp.initiateHolePunch(rp)\<close>,
  and its two address lists.\<close>

definition exchangeErr :: "helpers \<Rightarrow> holePuncher \<Rightarrow> iter_env \<Rightarrow> peer_ID \<Rightarrow> error option" where
  "exchangeErr h hp ie rp = snd (snd (snd (fst (initiateHolePunch h hp ie rp))))"

definition exchangeRtt :: "helpers \<Rightarrow> holePuncher \<Rightarrow> iter_env \<Rightarrow> peer_ID \<Rightarrow> duration" where
  "exchangeRtt h hp ie rp = fst (snd (snd (fst (initiateHolePunch h hp ie rp))))"

definition exchangeAddrs :: "helpers \<Rightarrow> holePuncher \<Rightarrow> iter_env \<Rightarrow> peer_ID \<Rightarrow> multiaddr list" where
  "exchangeAddrs h hp ie rp = fst (fst (initiateHolePunch h hp ie rp))"

definition exchangeObsAddrs :: "helpers \<Rightarrow> holePuncher \<Rightarrow> iter_env \<Rightarrow> peer_ID \<Rightarrow> multiaddr list" where
  "exchangeObsAddrs h hp ie rp = fst (snd (fst (initiateHolePunch h hp ie rp)))"

text \<open>
  An iteration whose exchange succeeds, whose timer fires and whose timed connect
  fails.
\<close>

definition connectFailed :: "helpers \<Rightarrow> holePuncher \<Rightarrow> iter_env \<Rightarrow> peer_ID \<Rightarrow> bool" where
  "connectFailed h hp ie rp =
     (exchangeErr h hp ie rp = None \<and> selectCase ie = TimerFired \<and> holePunchConnectErr ie \<noteq> None)"

text \<open>
  \<^verbatim>\<open>directConnect\<close> gets as far as the retry loop: no direct connection
  exists and the direct dial did not succeed.
\<close>

definition reachesLoop :: "helpers \<Rightarrow> holePuncher \<Rightarrow> dc_env \<Rightarrow> peer_ID \<Rightarrow> bool" where
  "reachesLoop h hp env rp =
     (directConnBefore env = None \<and> \<not> fst (directDial h hp env rp (peerstoreAddrs env)))"

fun isNewStream :: "event \<Rightarrow> bool" where
  "isNewStream (EvNewStream p) = True"
| "isNewStream e = False"

fun timerOf :: "event \<Rightarrow> duration list" where
  "timerOf (EvNewTimer d) = [d]"
| "timerOf e = []"

fun roleOf :: "event \<Rightarrow> bool list" where
  "roleOf (EvHolePunchConnect p as c t) = [c]"
| "roleOf e = []"

fun sentOf :: "event \<Rightarrow> HolePunch list" where
  "sentOf (EvWriteMsg m) = [m]"
| "sentOf e = []"

text \<open>
  Every iteration of the retry loop opens one stream, first of all, and nothing
  else does: the number of iterations started is the number of \<open>EvNewStream\<close>.
\<close>

definition iterationsStarted :: "event list \<Rightarrow> nat" where
  "iterationsStarted evs = length (filter isNewStream evs)"

text \<open>The durations the timers were armed with, the roles (\<^verbatim>\<open>isClient\<close>) passed to
  \<^verbatim>\<open>holePunchConnect\<close>, and the messages written, each in order.\<close>

definition timers :: "event list \<Rightarrow> duration list" where
  "timers evs = concat (map timerOf evs)"

definition roles :: "event list \<Rightarrow> bool list" where
  "roles evs = concat (map roleOf evs)"

definition sent :: "event list \<Rightarrow> HolePunch list" where
  "sent evs = concat (map sentOf evs)"

text \<open>
  What an error names: the arguments handed to \<^verbatim>\<open>fmt.Errorf\<close> and the text
  of its message. An error names a number when the number is an argument or
  its decimal digits stand in the text.
\<close>

fun fmtArgs :: "error \<Rightarrow> fmt_arg list" where
  "fmtArgs (Errorf f args) = args"
| "fmtArgs e = []"

fun fmtText :: "error \<Rightarrow> string" where
  "fmtText (Errorf f args) = f"
| "fmtText (ErrorsNew s) = s"
| "fmtText (External s) = s"
| "fmtText e = []"

definition digitChar :: "nat \<Rightarrow> char" where
  "digitChar n = (''0123456789'' ! (n mod 10))"

fun decimal :: "nat \<Rightarrow> string" where
  "decimal n = (if n < 10 then [digitChar n] else decimal (n div 10) @ [digitChar n])"

definition namesPeer :: "peer_ID \<Rightarrow> error \<Rightarrow> bool" where
  "namesPeer p e = (ArgPeer p \<in> set (fmtArgs e))"

definition namesNumber :: "nat \<Rightarrow> error \<Rightarrow> bool" where
  "namesNumber n e = (ArgInt (int n) \<in> set (fmtArgs e) \<or> sublist (decimal n) (fmtText e))"

text \<open>An admitted call to \<open>p\<close> that has not returned, at position \<open>i\<close>.\<close>

definition inFlightAt :: "sys \<Rightarrow> nat \<Rightarrow> peer_ID \<Rightarrow> bool" where
  "inFlightAt s i p = (i < length (tasks s) \<and> inFlightTo p (tasks s ! i))"

text \<open>A goroutine of \<^verbatim>\<open>Connected\<close> that has not ended, at position \<open>i\<close>.\<close>

definition countedAt :: "sys \<Rightarrow> nat \<Rightarrow> bool" where
  "countedAt s i = (i < length (tasks s) \<and> counted (tasks s ! i))"

text \<open>
  What holds of the coordinator in every state of a run: \<open>active\<close> holds
  exactly the peers of the admitted calls that have not returned, no two of
  them to one peer; \<open>refCount\<close> counts the goroutines of \<^verbatim>\<open>Connected\<close>
  that have not ended; the flags follow the steps of \<^verbatim>\<open>Close\<close>.
\<close>

definition activeInv :: "sys \<Rightarrow> bool" where
  "activeInv s =
     ((\<forall>p. (p \<in> active (coord s)) = (\<exists>i. inFlightAt s i p)) \<and>
      (\<forall>i j p. inFlightAt s i p \<and> inFlightAt s j p \<longrightarrow> i = j))"

definition countInv :: "sys \<Rightarrow> bool" where
  "countInv s = (refCount (coord s) = length (filter counted (tasks s)))"

definition closeInv :: "sys \<Rightarrow> bool" where
  "closeInv s =
     ((closeCall s \<noteq> NotCalled \<longrightarrow> closed (coord s)) \<and>
      (closeCall s = Cancelled \<or> closeCall s = CloseReturned None \<longrightarrow> ctxDone (coord s)) \<and>
      (\<forall>r. closeCall s = CloseReturned r \<longrightarrow> r = None))"

subsection \<open>Sample inputs\<close>

definition h0 :: helpers where
  "h0 = \<lparr>isRelayAddress = (\<lambda>a. a = ''/p2p-circuit''),
         IsPublicAddr = (\<lambda>a. a = ''/ip4/1.2.3.4''),
         addrsToBytes = (\<lambda>as. as),
         addrsFromBytes = (\<lambda>bs. bs)\<rparr>"

definition hp0 :: holePuncher where
  "hp0 = newHolePuncher None"

text \<open>A stream on which the whole exchange succeeds, with a round trip of 200.\<close>

definition strOk :: stream_env where
  "strOk = \<lparr>remotePeer = ''QmB'', setServiceErr = None, reserveMemoryErr = None,
            listenAddrsNow = [''/ip4/1.2.3.4'', ''/p2p-circuit''], clockStart = 1000,
            writeConnectErr = None,
            readMsg = Inr \<lparr>Type = CONNECT, ObsAddrs = [''/ip4/5.6.7.8'']\<rparr>,
            clockRecv = 1200, writeSyncErr = None\<rparr>"

text \<open>The same with no listen address but a relayed one; with a reply that
  carries only a relayed address; with a reply of kind SYNC; with a round trip
  of zero.\<close>

definition strNoLocal :: stream_env where
  "strNoLocal = strOk\<lparr>listenAddrsNow := [''/p2p-circuit'']\<rparr>"

definition strNoRemote :: stream_env where
  "strNoRemote = strOk\<lparr>readMsg := Inr \<lparr>Type = CONNECT, ObsAddrs = [''/p2p-circuit'']\<rparr>\<rparr>"

definition strWrongKind :: stream_env where
  "strWrongKind = strOk\<lparr>readMsg := Inr \<lparr>Type = SYNC, ObsAddrs = []\<rparr>\<rparr>"


text \<open>Iterations: the connect times out; the connect succeeds; the exchange
  fails; the context is cancelled during the wait; a round trip of zero.\<close>

definition iterTimeout :: iter_env where
  "iterTimeout = \<lparr>newStreamErr = None, stream = strOk, selectCase = TimerFired,
                  holePunchConnectErr = Some (External ''i/o timeout''), punchElapsed = 5000,
                  directConnAfter = None\<rparr>"


definition iterProtocolError :: iter_env where
  "iterProtocolError = iterTimeout\<lparr>stream := strWrongKind\<rparr>"

definition iterCancelled :: iter_env where
  "iterCancelled = iterTimeout\<lparr>selectCase := CtxDone\<rparr>"


text \<open>Calls of \<^verbatim>\<open>directConnect\<close> that reach the loop: every connect times out;
  the second exchange fails; the context is cancelled in the second wait.\<close>

definition envAllTimeout :: dc_env where
  "envAllTimeout = \<lparr>directConnBefore = None, peerstoreAddrs = [''/p2p-circuit''],
                    connectErr = None, connectElapsed = 0, iter = (\<lambda>i. iterTimeout)\<rparr>"

definition envSecondFails :: dc_env where
  "envSecondFails = envAllTimeout\<lparr>iter := (\<lambda>i. if i = 2 then iterProtocolError else iterTimeout)\<rparr>"

definition envSecondCancelled :: dc_env where
  "envSecondCancelled = envAllTimeout\<lparr>iter := (\<lambda>i. if i = 2 then iterCancelled else iterTimeout)\<rparr>"

text \<open>Coordinators with an attempt to \<open>QmB\<close> in flight, open and closed.\<close>

definition hpBusy :: holePuncher where
  "hpBusy = hp0\<lparr>active := {''QmB''}\<rparr>"

definition hpBusyClosed :: holePuncher where
  "hpBusyClosed = hpBusy\<lparr>closed := True, ctxDone := True\<rparr>"

text \<open>A run in which a goroutine of \<^verbatim>\<open>Connected\<close> is inside
  \<^verbatim>\<open>DirectConnect\<close> when \<^verbatim>\<open>Close\<close> reaches its wait.\<close>

definition actsSpawned :: "action list" where
  "actsSpawned = [AConnected True True ''QmB'', AIdentified 0, ACloseLock, ACloseCancel]"


section \<open>Properties\<close>

subsection \<open>Traces of the exchange and of the loop\<close>

declare holePunchLoop.simps [simp del]

lemma impl_no_newstream [simp]: "filter isNewStream (snd (initiateHolePunchImpl h hp str)) = []"
  by (simp add: initiateHolePunchImpl_def Let_def split: option.splits sum.splits)


lemma impl_no_roles [simp]: "roles (snd (initiateHolePunchImpl h hp str)) = []"
  by (simp add: initiateHolePunchImpl_def Let_def roles_def split: option.splits sum.splits)

lemma exchange_newstream [simp]:
  "filter isNewStream (snd (initiateHolePunch h hp ie rp)) = [EvNewStream rp]"
proof -
  obtain a b c d evs where e: "initiateHolePunchImpl h hp (stream ie) = ((a, b, c, d), evs)"
    by (metis prod.exhaust)
  have "filter isNewStream evs = []" using impl_no_newstream [of h hp "stream ie"] e by simp
  then show ?thesis
    by (simp add: initiateHolePunch_def e split: option.splits)
qed


lemma exchange_no_roles [simp]: "roles (snd (initiateHolePunch h hp ie rp)) = []"
proof -
  obtain a b c d evs where e: "initiateHolePunchImpl h hp (stream ie) = ((a, b, c, d), evs)"
    by (metis prod.exhaust)
  have "roles evs = []" using impl_no_roles [of h hp "stream ie"] e by simp
  then show ?thesis
    by (simp add: initiateHolePunch_def e roles_def split: option.splits)
qed

lemma iteration_started [simp]:
  "iterationsStarted (snd (holePunchIteration h hp ie rp i)) = 1"
proof -
  obtain a b c d evs where e: "initiateHolePunch h hp ie rp = ((a, b, c, d), evs)"
    by (metis prod.exhaust)
  have "filter isNewStream evs = [EvNewStream rp]"
    using exchange_newstream [of h hp ie rp] e by simp
  then show ?thesis
    by (simp add: holePunchIteration_def e iterationsStarted_def Let_def
        split: option.splits select_case.splits)
qed

lemma iteration_continue_iff:
  "(fst (holePunchIteration h hp ie rp i) = Continue) = connectFailed h hp ie rp"
proof -
  obtain a b c d evs where e: "initiateHolePunch h hp ie rp = ((a, b, c, d), evs)"
    by (metis prod.exhaust)
  show ?thesis
    by (auto simp add: holePunchIteration_def e connectFailed_def exchangeErr_def Let_def
        split: option.splits select_case.splits)
qed

lemma iteration_exchange_error:
  "exchangeErr h hp ie rp = Some e \<Longrightarrow>
   holePunchIteration h hp ie rp i =
     (Return (Some e), snd (initiateHolePunch h hp ie rp) @ [TrProtocolError rp e])"
proof -
  assume x: "exchangeErr h hp ie rp = Some e"
  obtain a b c d evs where e: "initiateHolePunch h hp ie rp = ((a, b, c, d), evs)"
    by (metis prod.exhaust)
  show ?thesis using x
    by (simp add: holePunchIteration_def e exchangeErr_def)
qed

lemma iteration_cancelled:
  "exchangeErr h hp ie rp = None \<Longrightarrow> selectCase ie = CtxDone \<Longrightarrow>
   holePunchIteration h hp ie rp i =
     (Return (Some ContextCanceled),
      snd (initiateHolePunch h hp ie rp) @ [EvNewTimer (exchangeRtt h hp ie rp sdiv 2), EvTimerStop])"
proof -
  assume x: "exchangeErr h hp ie rp = None" and c: "selectCase ie = CtxDone"
  obtain a b c d evs where e: "initiateHolePunch h hp ie rp = ((a, b, c, d), evs)"
    by (metis prod.exhaust)
  show ?thesis using x c
    by (simp add: holePunchIteration_def e exchangeErr_def exchangeRtt_def)
qed


lemma iteration_roles:
  "roles (snd (holePunchIteration h hp ie rp i)) =
     (if exchangeErr h hp ie rp = None \<and> selectCase ie = TimerFired
      then [\<not> legacyBehavior hp] else [])"
proof -
  obtain a b c d evs where e: "initiateHolePunch h hp ie rp = ((a, b, c, d), evs)"
    by (metis prod.exhaust)
  have "roles evs = []"
    using exchange_no_roles [of h hp ie rp] e by simp
  then show ?thesis
    by (simp add: holePunchIteration_def e exchangeErr_def roles_def Let_def
        split: option.splits select_case.splits)
qed

lemma loop_continue:
  "i \<le> maxRetries \<Longrightarrow> fst (holePunchIteration h hp (env i) rp i) = Continue \<Longrightarrow>
   holePunchLoop h hp env rp i =
     (fst (holePunchLoop h hp env rp (Suc i)),
      snd (holePunchIteration h hp (env i) rp i) @ snd (holePunchLoop h hp env rp (Suc i)))"
proof -
  assume le: "i \<le> maxRetries" and c: "fst (holePunchIteration h hp (env i) rp i) = Continue"
  obtain evs where e: "holePunchIteration h hp (env i) rp i = (Continue, evs)"
    using c by (cases "holePunchIteration h hp (env i) rp i") auto
  show ?thesis using le
    by (subst holePunchLoop.simps) (simp add: e split: prod.splits)
qed

lemma loop_return:
  "i \<le> maxRetries \<Longrightarrow> fst (holePunchIteration h hp (env i) rp i) = Return r \<Longrightarrow>
   holePunchLoop h hp env rp i = (r, snd (holePunchIteration h hp (env i) rp i))"
proof -
  assume le: "i \<le> maxRetries" and c: "fst (holePunchIteration h hp (env i) rp i) = Return r"
  obtain evs where e: "holePunchIteration h hp (env i) rp i = (Return r, evs)"
    using c by (cases "holePunchIteration h hp (env i) rp i") auto
  show ?thesis using le
    by (subst holePunchLoop.simps) (simp add: e)
qed

lemma loop_exhausted:
  "maxRetries < i \<Longrightarrow>
   holePunchLoop h hp env rp i =
     (Some (Errorf ''all retries for hole punch with peer %s failed'' [ArgPeer rp]), [])"
  by (subst holePunchLoop.simps) simp

lemma iterationsStarted_Nil [simp]: "iterationsStarted [] = 0"
  by (simp add: iterationsStarted_def)

lemma iterationsStarted_append [simp]:
  "iterationsStarted (xs @ ys) = iterationsStarted xs + iterationsStarted ys"
  by (simp add: iterationsStarted_def)

lemma timers_append [simp]: "timers (xs @ ys) = timers xs @ timers ys"
  by (simp add: timers_def)

lemma roles_append [simp]: "roles (xs @ ys) = roles xs @ roles ys"
  by (simp add: roles_def)

lemma loop_stops_at:
  assumes "k \<le> i" and "i \<le> maxRetries"
    and "\<forall>j. k \<le> j \<and> j < i \<longrightarrow> fst (holePunchIteration h hp (env j) rp j) = Continue"
    and "fst (holePunchIteration h hp (env i) rp i) = Return r"
  shows "fst (holePunchLoop h hp env rp k) = r \<and>
         iterationsStarted (snd (holePunchLoop h hp env rp k)) = Suc (i - k) \<and>
         (\<exists>pre. snd (holePunchLoop h hp env rp k) = pre @ snd (holePunchIteration h hp (env i) rp i))"
  using assms
proof (induction "i - k" arbitrary: k)
  case 0
  then have "k = i" by simp
  then show ?case using 0 by (simp add: loop_return)
next
  case (Suc n)
  then have lt: "k < i" and c: "fst (holePunchIteration h hp (env k) rp k) = Continue"
    by auto
  have ih: "fst (holePunchLoop h hp env rp (Suc k)) = r \<and>
         iterationsStarted (snd (holePunchLoop h hp env rp (Suc k))) = Suc (i - Suc k) \<and>
         (\<exists>pre. snd (holePunchLoop h hp env rp (Suc k)) = pre @ snd (holePunchIteration h hp (env i) rp i))"
    using Suc by (intro Suc.hyps(1)) auto
  have kle: "k \<le> maxRetries" using lt Suc.prems by simp
  show ?case
    using ih lt by (auto simp add: loop_continue [where env = env and i = k, OF kle c])
qed

lemma loop_all_continue:
  assumes "k \<le> Suc maxRetries"
    and "\<forall>j. k \<le> j \<and> j \<le> maxRetries \<longrightarrow> fst (holePunchIteration h hp (env j) rp j) = Continue"
  shows "fst (holePunchLoop h hp env rp k) =
           Some (Errorf ''all retries for hole punch with peer %s failed'' [ArgPeer rp]) \<and>
         iterationsStarted (snd (holePunchLoop h hp env rp k)) = Suc maxRetries - k"
  using assms
proof (induction "Suc maxRetries - k" arbitrary: k)
  case 0
  then have "maxRetries < k" by simp
  then show ?case by (simp add: loop_exhausted)
next
  case (Suc n)
  then have kle: "k \<le> maxRetries" and c: "fst (holePunchIteration h hp (env k) rp k) = Continue"
    by auto
  have ih: "fst (holePunchLoop h hp env rp (Suc k)) =
           Some (Errorf ''all retries for hole punch with peer %s failed'' [ArgPeer rp]) \<and>
         iterationsStarted (snd (holePunchLoop h hp env rp (Suc k))) = Suc maxRetries - Suc k"
    using Suc by (intro Suc.hyps(1)) auto
  show ?case
    using ih kle by (auto simp add: loop_continue [where env = env and i = k, OF kle c])
qed


lemma loop_roles:
  "\<forall>c \<in> set (roles (snd (holePunchLoop h hp env rp i))). c = (\<not> legacyBehavior hp)"
proof (induction "Suc maxRetries - i" arbitrary: i)
  case 0
  then have "maxRetries < i" by simp
  then show ?case by (simp add: loop_exhausted roles_def)
next
  case (Suc n)
  then have ile: "i \<le> maxRetries" by simp
  have ih: "\<forall>c \<in> set (roles (snd (holePunchLoop h hp env rp (Suc i)))). c = (\<not> legacyBehavior hp)"
    using Suc by (intro Suc.hyps(1)) simp
  show ?case
  proof (cases "fst (holePunchIteration h hp (env i) rp i)")
    case (Return r)
    show ?thesis
      by (simp only: loop_return [where env = env and i = i, OF ile Return]) (simp add: iteration_roles)
  next
    case Continue
    then show ?thesis using ih
      by (simp only: loop_continue [where env = env and i = i, OF ile Continue]) (auto simp add: iteration_roles)
  qed
qed

subsection \<open>The worker and the call around it\<close>

lemma directDial_trace [simp]:
  "iterationsStarted (snd (directDial h hp env rp as)) = 0 \<and>
   timers (snd (directDial h hp env rp as)) = [] \<and>
   roles (snd (directDial h hp env rp as)) = []"
  by (induction as) (simp_all add: iterationsStarted_def timers_def roles_def split: option.splits)

lemma directConnect_loop:
  assumes "reachesLoop h hp env rp"
  shows "directConnect h hp env rp =
     (fst (holePunchLoop h hp (iter env) rp 1),
      [EvGetDirectConnection rp, EvPeerstoreAddrs rp] @
        snd (directDial h hp env rp (peerstoreAddrs env)) @
        snd (holePunchLoop h hp (iter env) rp 1))"
proof -
  obtain evs where d: "directDial h hp env rp (peerstoreAddrs env) = (False, evs)"
    using assms by (cases "directDial h hp env rp (peerstoreAddrs env)") (auto simp add: reachesLoop_def)
  show ?thesis using assms
    by (simp add: directConnect_def reachesLoop_def d split: prod.splits)
qed

lemma addrs_active [simp]:
  "localObsAddrs h (hp\<lparr>active := A\<rparr>) str = localObsAddrs h hp str"
  "remoteAddrs h (hp\<lparr>active := A\<rparr>) str msg = remoteAddrs h hp str msg"
  by (simp_all add: localObsAddrs_def remoteAddrs_def)

lemma impl_active [simp]:
  "initiateHolePunchImpl h (hp\<lparr>active := A\<rparr>) str = initiateHolePunchImpl h hp str"
  by (simp add: initiateHolePunchImpl_def
      cong: option.case_cong sum.case_cong if_cong)

lemma exchange_active [simp]:
  "initiateHolePunch h (hp\<lparr>active := A\<rparr>) ie rp = initiateHolePunch h hp ie rp"
  by (simp add: initiateHolePunch_def cong: option.case_cong)

lemma iteration_active [simp]:
  "holePunchIteration h (hp\<lparr>active := A\<rparr>) ie rp i = holePunchIteration h hp ie rp i"
  by (simp add: holePunchIteration_def
      cong: option.case_cong prod.case_cong select_case.case_cong if_cong)

lemma loop_active [simp]:
  "holePunchLoop h (hp\<lparr>active := A\<rparr>) env rp i = holePunchLoop h hp env rp i"
proof (induction "Suc maxRetries - i" arbitrary: i)
  case 0
  then have "maxRetries < i" by simp
  then show ?case by (simp add: loop_exhausted)
next
  case (Suc n)
  then have ile: "i \<le> maxRetries" by simp
  have ih: "holePunchLoop h (hp\<lparr>active := A\<rparr>) env rp (Suc i) = holePunchLoop h hp env rp (Suc i)"
    using Suc by (intro Suc.hyps(1)) simp
  show ?case
  proof (cases "fst (holePunchIteration h hp (env i) rp i)")
    case (Return r)
    then have r': "fst (holePunchIteration h (hp\<lparr>active := A\<rparr>) (env i) rp i) = Return r"
      by simp
    show ?thesis
      by (simp add: loop_return [where env = env and i = i, OF ile Return]
          loop_return [where env = env and i = i, OF ile r'])
  next
    case Continue
    then have c': "fst (holePunchIteration h (hp\<lparr>active := A\<rparr>) (env i) rp i) = Continue"
      by simp
    show ?thesis
      by (simp add: loop_continue [where env = env and i = i, OF ile Continue]
          loop_continue [where env = env and i = i, OF ile c'] ih)
  qed
qed

lemma directDial_active [simp]:
  "directDial h (hp\<lparr>active := A\<rparr>) env rp as = directDial h hp env rp as"
  by (induction as) (simp_all cong: option.case_cong if_cong)

lemma directConnect_active [simp]:
  "directConnect h (hp\<lparr>active := A\<rparr>) env rp = directConnect h hp env rp"
  by (simp add: directConnect_def cong: option.case_cong prod.case_cong bool.case_cong)

lemma DirectConnect_admitted:
  assumes "\<not> closed hp" and "p \<notin> active hp"
  shows "DirectConnect h hp env p = (hp, directConnect h hp env p)"
  using assms
  by (simp add: DirectConnect_def beginDirectConnect_def endDirectConnect_def split: prod.splits)

subsection \<open>The exchange, case by case\<close>

lemma impl_success:
  assumes "snd (snd (snd (fst (initiateHolePunchImpl h hp str)))) = None"
  shows "\<exists>msg. readMsg str = Inr msg \<and> Type msg = CONNECT \<and>
     initiateHolePunchImpl h hp str =
       ((remoteAddrs h hp str msg, localObsAddrs h hp str, clockRecv str - clockStart str, None),
        [EvSetService, EvReserveMemory, EvSetDeadline, EvListenAddrs, EvNow,
         EvWriteMsg (connectMsg h (localObsAddrs h hp str)), EvReadMsg, EvSince,
         EvWriteMsg syncMsg, EvReleaseMemory])"
  using assms
  by (auto simp add: initiateHolePunchImpl_def Let_def split: option.splits sum.splits if_splits)

lemma impl_no_local:
  assumes "setServiceErr str = None" and "reserveMemoryErr str = None"
    and "localObsAddrs h hp str = []"
  shows "initiateHolePunchImpl h hp str =
     (([], [], 0, Some (ErrorsNew ''aborting hole punch initiation as we have no public address'')),
      [EvSetService, EvReserveMemory, EvSetDeadline, EvListenAddrs, EvReleaseMemory])"
  using assms by (simp add: initiateHolePunchImpl_def)

lemma impl_replied:
  assumes "setServiceErr str = None" and "reserveMemoryErr str = None"
    and "localObsAddrs h hp str \<noteq> []" and "writeConnectErr str = None"
    and "readMsg str = Inr msg"
  shows "initiateHolePunchImpl h hp str =
     (if Type msg \<noteq> CONNECT then
        (([], [], 0, Some (Errorf ''expect CONNECT message, got %s'' [ArgType (Type msg)])),
         [EvSetService, EvReserveMemory, EvSetDeadline, EvListenAddrs, EvNow,
          EvWriteMsg (connectMsg h (localObsAddrs h hp str)), EvReadMsg, EvSince,
          EvReleaseMemory])
      else if remoteAddrs h hp str msg = [] then
        (([], [], 0, Some (ErrorsNew ''didn't receive any public addresses in CONNECT'')),
         [EvSetService, EvReserveMemory, EvSetDeadline, EvListenAddrs, EvNow,
          EvWriteMsg (connectMsg h (localObsAddrs h hp str)), EvReadMsg, EvSince,
          EvReleaseMemory])
      else
        ((if writeSyncErr str = None
          then (remoteAddrs h hp str msg, localObsAddrs h hp str, clockRecv str - clockStart str, None)
          else ([], [], 0, Some (Errorf ''failed to send SYNC message for hole punching: %w''
                                   [ArgErr (the (writeSyncErr str))]))),
         [EvSetService, EvReserveMemory, EvSetDeadline, EvListenAddrs, EvNow,
          EvWriteMsg (connectMsg h (localObsAddrs h hp str)), EvReadMsg, EvSince,
          EvWriteMsg syncMsg, EvReleaseMemory]))"
  using assms by (auto simp add: initiateHolePunchImpl_def Let_def split: option.splits)



lemma iteration_last_retry:
  assumes "connectFailed h hp ie rp"
  shows "\<exists>pre. snd (holePunchIteration h hp ie rp maxRetries) =
     pre @ [TrHolePunchFinished ''initiator'' maxRetries (exchangeAddrs h hp ie rp)
              (exchangeObsAddrs h hp ie rp) None]"
proof -
  obtain a b c d evs where e: "initiateHolePunch h hp ie rp = ((a, b, c, d), evs)"
    by (metis prod.exhaust)
  show ?thesis using assms
    by (auto simp add: holePunchIteration_def e connectFailed_def exchangeErr_def
        exchangeAddrs_def exchangeObsAddrs_def Let_def)
qed

subsection \<open>Roles and last events of the loop\<close>

lemma loop_stops_roles:
  assumes "k \<le> i" and "i \<le> maxRetries"
    and "\<forall>j. k \<le> j \<and> j < i \<longrightarrow> connectFailed h hp (env j) rp"
    and "fst (holePunchIteration h hp (env i) rp i) = Return r"
  shows "roles (snd (holePunchLoop h hp env rp k)) =
           replicate (i - k) (\<not> legacyBehavior hp) @ roles (snd (holePunchIteration h hp (env i) rp i))"
  using assms
proof (induction "i - k" arbitrary: k)
  case 0
  then have "k = i" by simp
  then show ?case using 0 by (simp add: loop_return)
next
  case (Suc n)
  then have lt: "k < i" and f: "connectFailed h hp (env k) rp"
    by auto
  have c: "fst (holePunchIteration h hp (env k) rp k) = Continue"
    using f by (simp add: iteration_continue_iff)
  have ih: "roles (snd (holePunchLoop h hp env rp (Suc k))) =
           replicate (i - Suc k) (\<not> legacyBehavior hp) @ roles (snd (holePunchIteration h hp (env i) rp i))"
    using Suc by (intro Suc.hyps(1)) auto
  have kle: "k \<le> maxRetries" using lt Suc.prems by simp
  have "i - k = Suc (i - Suc k)" using lt by simp
  then show ?case
    using ih f
    by (simp add: loop_continue [where env = env and i = k, OF kle c] iteration_roles connectFailed_def)
qed

lemma loop_all_roles:
  assumes "k \<le> Suc maxRetries"
    and "\<forall>j. k \<le> j \<and> j \<le> maxRetries \<longrightarrow> connectFailed h hp (env j) rp"
  shows "roles (snd (holePunchLoop h hp env rp k)) =
           replicate (Suc maxRetries - k) (\<not> legacyBehavior hp)"
  using assms
proof (induction "Suc maxRetries - k" arbitrary: k)
  case 0
  then have "maxRetries < k" by simp
  then show ?case by (simp add: loop_exhausted roles_def)
next
  case (Suc n)
  then have kle: "k \<le> maxRetries" and f: "connectFailed h hp (env k) rp"
    by auto
  have c: "fst (holePunchIteration h hp (env k) rp k) = Continue"
    using f by (simp add: iteration_continue_iff)
  have ih: "roles (snd (holePunchLoop h hp env rp (Suc k))) =
           replicate (Suc maxRetries - Suc k) (\<not> legacyBehavior hp)"
    using Suc by (intro Suc.hyps(1)) auto
  have "Suc maxRetries - k = Suc (Suc maxRetries - Suc k)" using kle by simp
  then show ?case
    using ih f
    by (simp add: loop_continue [where env = env and i = k, OF kle c] iteration_roles connectFailed_def)
qed

lemma loop_all_last:
  assumes "k \<le> maxRetries"
    and "\<forall>j. k \<le> j \<and> j \<le> maxRetries \<longrightarrow> connectFailed h hp (env j) rp"
  shows "\<exists>pre. snd (holePunchLoop h hp env rp k) =
           pre @ snd (holePunchIteration h hp (env maxRetries) rp maxRetries)"
  using assms
proof (induction "maxRetries - k" arbitrary: k)
  case 0
  then have k: "k = maxRetries" by simp
  have c: "fst (holePunchIteration h hp (env maxRetries) rp maxRetries) = Continue"
    using 0 k by (simp add: iteration_continue_iff)
  show ?case
    by (simp add: k loop_continue [where env = env and i = maxRetries, OF _ c] loop_exhausted)
next
  case (Suc n)
  then have kle: "k \<le> maxRetries" and f: "connectFailed h hp (env k) rp"
    by auto
  have c: "fst (holePunchIteration h hp (env k) rp k) = Continue"
    using f by (simp add: iteration_continue_iff)
  have ih: "\<exists>pre. snd (holePunchLoop h hp env rp (Suc k)) =
           pre @ snd (holePunchIteration h hp (env maxRetries) rp maxRetries)"
    using Suc by (intro Suc.hyps(1)) auto
  then obtain pre where p: "snd (holePunchLoop h hp env rp (Suc k)) =
           pre @ snd (holePunchIteration h hp (env maxRetries) rp maxRetries)" by blast
  show ?case
    by (simp add: loop_continue [where env = env and i = k, OF kle c] p)
qed

subsection \<open>Traces, event by event\<close>

lemma iterationsStarted_Cons [simp]:
  "iterationsStarted (e # es) = (if isNewStream e then 1 else 0) + iterationsStarted es"
  by (simp add: iterationsStarted_def)

lemma timers_Cons [simp]: "timers (e # es) = timerOf e @ timers es"
  by (simp add: timers_def)

lemma roles_Cons [simp]: "roles (e # es) = roleOf e @ roles es"
  by (simp add: roles_def)

lemma timers_Nil [simp]: "timers [] = []"
  by (simp add: timers_def)

lemma roles_Nil [simp]: "roles [] = []"
  by (simp add: roles_def)

lemma sent_Nil [simp]: "sent [] = []"
  by (simp add: sent_def)

lemma sent_Cons [simp]: "sent (e # es) = sentOf e @ sent es"
  by (simp add: sent_def)

subsection \<open>Invariants of a run\<close>


lemma filter_update_length:
  "i < length xs \<Longrightarrow>
   length (filter P (xs[i := y])) + (if P (xs ! i) then 1 else 0) =
   length (filter P xs) + (if P y then 1 else 0)"
proof (induction xs arbitrary: i)
  case Nil
  then show ?case by simp
next
  case (Cons x xs)
  show ?case
  proof (cases i)
    case 0
    then show ?thesis by simp
  next
    case (Suc k)
    then have "k < length xs" using Cons.prems by simp
    from Cons.IH [OF this] show ?thesis using Suc by simp
  qed
qed

lemma filter_update_count:
  assumes "i < length xs"
  shows "length (filter P (xs[i := y])) =
         length (filter P xs) - (if P (xs ! i) then 1 else 0) + (if P y then 1 else 0)"
proof -
  have "P (xs ! i) \<Longrightarrow> 0 < length (filter P xs)"
    using assms by (auto simp add: filter_empty_conv)
  then show ?thesis
    using filter_update_length [OF assms, of P y] by (auto split: if_splits)
qed

lemma filter_pos: "i < length xs \<Longrightarrow> P (xs ! i) \<Longrightarrow> 0 < length (filter P xs)"
  by (auto simp add: filter_empty_conv)

lemma admit_cases:
  "admit b hp p =
     (if closed hp then ((if b then refDone hp else hp), Finished (Some ErrClosed))
      else if p \<in> active hp then ((if b then refDone hp else hp), Finished (Some ErrHolePunchActive))
      else (hp\<lparr>active := insert p (active hp)\<rparr>, InFlight b p))"
  by (simp add: admit_def beginDirectConnect_def)

lemma refDone_fields [simp]:
  "active (refDone hp) = active hp" "closed (refDone hp) = closed hp"
  "ctxDone (refDone hp) = ctxDone hp" "refCount (refDone hp) = refCount hp - 1"
  by (simp_all add: refDone_def)

lemma endDirectConnect_fields [simp]:
  "active (endDirectConnect hp p) = active hp - {p}" "closed (endDirectConnect hp p) = closed hp"
  "ctxDone (endDirectConnect hp p) = ctxDone hp" "refCount (endDirectConnect hp p) = refCount hp"
  by (simp_all add: endDirectConnect_def)

lemma closeInv_step: "closeInv s \<Longrightarrow> closeInv (step h s a)"
  by (cases a)
     (auto simp add: closeInv_def admit_cases Let_def split: task.splits if_splits)

lemma countInv_step:
  assumes "countInv s"
  shows "countInv (step h s a)"
proof (cases a)
  case (ACall p)
  then show ?thesis using assms by (simp add: countInv_def admit_cases)
next
  case (AConnected inbound relay p)
  then show ?thesis using assms by (simp add: countInv_def)
next
  case (AIdentified i)
  show ?thesis
  proof (cases "i < length (tasks s)")
    case True
    show ?thesis using assms AIdentified True filter_pos [of i "tasks s" counted]
      by (auto simp add: countInv_def filter_update_count admit_cases split: task.splits)
  next
    case False
    then show ?thesis using assms AIdentified by simp
  qed
next
  case (ACtxDone i)
  show ?thesis
  proof (cases "i < length (tasks s)")
    case True
    show ?thesis using assms ACtxDone True filter_pos [of i "tasks s" counted]
      by (auto simp add: countInv_def filter_update_count split: task.splits)
  next
    case False
    then show ?thesis using assms ACtxDone by simp
  qed
next
  case (AReturn i env)
  show ?thesis
  proof (cases "i < length (tasks s)")
    case True
    show ?thesis using assms AReturn True filter_pos [of i "tasks s" counted]
      by (auto simp add: countInv_def filter_update_count Let_def split: task.splits)
  next
    case False
    then show ?thesis using assms AReturn by simp
  qed
next
  case ACloseLock
  then show ?thesis using assms by (simp add: countInv_def)
next
  case ACloseCancel
  then show ?thesis using assms by (simp add: countInv_def)
next
  case ACloseWait
  then show ?thesis using assms by (simp add: countInv_def)
qed

lemma inFlightAt_snoc:
  "tasks s' = tasks s @ [t] \<Longrightarrow>
   inFlightAt s' i p = (inFlightAt s i p \<or> (i = length (tasks s) \<and> inFlightTo p t))"
  by (auto simp add: inFlightAt_def nth_append)

lemma activeInv_snoc_idle:
  assumes "activeInv s" and "\<And>p. \<not> inFlightTo p t" and "active hp' = active (coord s)"
  shows "activeInv (s\<lparr>coord := hp', tasks := tasks s @ [t]\<rparr>)"
  using assms
  by (simp add: activeInv_def inFlightAt_snoc [where s = s and t = t])

lemma activeInv_snoc_admitted:
  assumes "activeInv s" and "p \<notin> active (coord s)"
  shows "activeInv (s\<lparr>coord := (coord s)\<lparr>active := insert p (active (coord s))\<rparr>,
                      tasks := tasks s @ [InFlight b p]\<rparr>)"
proof -
  have n: "\<not> inFlightAt s i p" for i using assms by (auto simp add: activeInv_def)
  have l: "\<not> inFlightAt s (length (tasks s)) q" for q by (simp add: inFlightAt_def)
  show ?thesis
    using assms n l
    by (simp add: activeInv_def inFlightAt_snoc [where s = s and t = "InFlight b p"]; blast)
qed

lemma activeInv_upd_idle:
  assumes "activeInv s" and "j < length (tasks s)" and "\<And>p. \<not> inFlightTo p (tasks s ! j)"
    and "\<And>p. \<not> inFlightTo p t" and "active hp' = active (coord s)"
  shows "activeInv (s\<lparr>coord := hp', tasks := (tasks s)[j := t]\<rparr>)"
proof -
  have e: "inFlightAt (s\<lparr>coord := hp', tasks := (tasks s)[j := t]\<rparr>) i p = inFlightAt s i p" for i p
    using assms(2-4) by (auto simp add: inFlightAt_def nth_list_update)
  show ?thesis using assms(1) assms(5) by (simp add: activeInv_def e)
qed

lemma activeInv_upd_admitted:
  assumes "activeInv s" and "j < length (tasks s)" and "\<And>q. \<not> inFlightTo q (tasks s ! j)"
    and "p \<notin> active (coord s)"
  shows "activeInv (s\<lparr>coord := (coord s)\<lparr>active := insert p (active (coord s))\<rparr>,
                      tasks := (tasks s)[j := InFlight b p]\<rparr>)"
proof -
  let ?s' = "s\<lparr>coord := (coord s)\<lparr>active := insert p (active (coord s))\<rparr>,
                tasks := (tasks s)[j := InFlight b p]\<rparr>"
  have A: "(q \<in> active (coord s)) = (\<exists>i. inFlightAt s i q)" for q
    using assms(1) by (simp add: activeInv_def)
  have U: "inFlightAt s i q \<Longrightarrow> inFlightAt s k q \<Longrightarrow> i = k" for i k q
    using assms(1) by (auto simp add: activeInv_def)
  have n: "\<not> inFlightAt s i p" for i using assms(4) A by blast
  have nj: "\<not> inFlightAt s j q" for q using assms(3) by (simp add: inFlightAt_def)
  have e: "inFlightAt ?s' i q = (if i = j then q = p else inFlightAt s i q)" for i q
    using assms(2) by (auto simp add: inFlightAt_def nth_list_update)
  have 1: "(q \<in> active (coord ?s')) = (\<exists>i. inFlightAt ?s' i q)" for q
  proof (cases "q = p")
    case True
    have "inFlightAt ?s' j q" using True by (simp only: e) simp
    then show ?thesis using True by auto
  next
    case False
    have "(\<exists>i. inFlightAt ?s' i q) = (\<exists>i. inFlightAt s i q)"
      using False nj by (simp only: e) metis
    then show ?thesis using False A by simp
  qed
  have 2: "i = k" if "inFlightAt ?s' i q" and "inFlightAt ?s' k q" for i k q
    using that U n nj by (simp only: e) (metis)
  show ?thesis
    unfolding activeInv_def using 1 2 by blast
qed

lemma activeInv_upd_returned:
  assumes "activeInv s" and "j < length (tasks s)" and "tasks s ! j = InFlight b p"
    and "active hp' = active (coord s) - {p}"
  shows "activeInv (s\<lparr>coord := hp', tasks := (tasks s)[j := Finished r]\<rparr>)"
proof -
  let ?s' = "s\<lparr>coord := hp', tasks := (tasks s)[j := Finished r]\<rparr>"
  have A: "(q \<in> active (coord s)) = (\<exists>i. inFlightAt s i q)" for q
    using assms(1) by (simp add: activeInv_def)
  have U: "inFlightAt s i q \<Longrightarrow> inFlightAt s k q \<Longrightarrow> i = k" for i k q
    using assms(1) by (auto simp add: activeInv_def)
  have j: "inFlightAt s j p" using assms(2,3) by (simp add: inFlightAt_def)
  have jq: "inFlightAt s j q \<Longrightarrow> q = p" for q using assms(2,3) by (simp add: inFlightAt_def)
  have e: "inFlightAt ?s' i q = (i \<noteq> j \<and> inFlightAt s i q)" for i q
    using assms(2) by (auto simp add: inFlightAt_def nth_list_update)
  have 1: "(q \<in> active (coord ?s')) = (\<exists>i. inFlightAt ?s' i q)" for q
  proof (cases "q = p")
    case True
    have "\<not> inFlightAt ?s' i q" for i using True U j by (simp only: e) metis
    then show ?thesis using True assms(4) by simp
  next
    case False
    have "(\<exists>i. inFlightAt ?s' i q) = (\<exists>i. inFlightAt s i q)"
      using False jq by (simp only: e) metis
    then show ?thesis using False A assms(4) by simp
  qed
  have 2: "i = k" if "inFlightAt ?s' i q" and "inFlightAt ?s' k q" for i k q
    using that U by (simp only: e) metis
  show ?thesis
    unfolding activeInv_def using 1 2 by blast
qed

lemma activeInv_coord:
  assumes "activeInv s" and "active hp' = active (coord s)"
  shows "activeInv (s\<lparr>coord := hp', closeCall := c\<rparr>)"
  using assms by (simp add: activeInv_def inFlightAt_def)

lemma activeInv_step:
  assumes "activeInv s"
  shows "activeInv (step h s a)"
proof (cases a)
  case (ACall p)
  show ?thesis
    using assms activeInv_snoc_idle [OF assms, where t = "Finished (Some ErrClosed)" and hp' = "coord s"]
      activeInv_snoc_idle [OF assms, where t = "Finished (Some ErrHolePunchActive)" and hp' = "coord s"]
      activeInv_snoc_admitted [OF assms, of p False]
    by (simp add: ACall admit_cases)
next
  case (AConnected inbound relay p)
  show ?thesis
    using assms activeInv_snoc_idle [OF assms, where t = "Waiting p"
        and hp' = "(coord s)\<lparr>refCount := refCount (coord s) + 1\<rparr>"]
    by (simp add: AConnected)
next
  case (AIdentified i)
  show ?thesis
  proof (cases "i < length (tasks s)")
    case True
    show ?thesis
    proof (cases "tasks s ! i")
      case (Waiting p)
      have w: "\<not> inFlightTo q (tasks s ! i)" for q by (simp add: Waiting)
      show ?thesis
        using activeInv_upd_idle [OF assms True w, where t = "Finished (Some ErrClosed)"
            and hp' = "refDone (coord s)"]
          activeInv_upd_idle [OF assms True w, where t = "Finished (Some ErrHolePunchActive)"
            and hp' = "refDone (coord s)"]
          activeInv_upd_admitted [OF assms True w, of p True]
        by (simp add: AIdentified True Waiting admit_cases)
    qed (use assms AIdentified True in simp_all)
  next
    case False
    then show ?thesis using assms AIdentified by simp
  qed
next
  case (ACtxDone i)
  show ?thesis
  proof (cases "i < length (tasks s) \<and> ctxDone (coord s)")
    case True
    then have l: "i < length (tasks s)" by simp
    show ?thesis
    proof (cases "tasks s ! i")
      case (Waiting p)
      have w: "\<not> inFlightTo q (tasks s ! i)" for q by (simp add: Waiting)
      show ?thesis
        using activeInv_upd_idle [OF assms l w, where t = Exited and hp' = "refDone (coord s)"]
        by (simp add: ACtxDone True Waiting)
    qed (use assms ACtxDone True in simp_all)
  next
    case False
    then show ?thesis using assms ACtxDone by auto
  qed
next
  case (AReturn i env)
  show ?thesis
  proof (cases "i < length (tasks s) \<and> selectAllowed (coord s) env")
    case True
    then have l: "i < length (tasks s)" by simp
    show ?thesis
    proof (cases "tasks s ! i")
      case (InFlight b p)
      show ?thesis
        using activeInv_upd_returned [OF assms l InFlight, where hp' = "refDone (endDirectConnect (coord s) p)"]
          activeInv_upd_returned [OF assms l InFlight, where hp' = "endDirectConnect (coord s) p"]
        by (simp add: AReturn True InFlight Let_def)
    qed (use assms AReturn True in simp_all)
  next
    case False
    then show ?thesis using assms AReturn by auto
  qed
next
  case ACloseLock
  show ?thesis
    using assms activeInv_coord [OF assms, where hp' = "(coord s)\<lparr>closed := True\<rparr>"]
    by (simp add: ACloseLock)
next
  case ACloseCancel
  show ?thesis
    using assms activeInv_coord [OF assms, where hp' = "(coord s)\<lparr>ctxDone := True\<rparr>"]
    by (simp add: ACloseCancel)
next
  case ACloseWait
  show ?thesis
    using assms by (simp add: ACloseWait activeInv_def inFlightAt_def)
qed

lemma invariants_init: "activeInv (init flt) \<and> countInv (init flt) \<and> closeInv (init flt)"
  by (simp add: activeInv_def countInv_def closeInv_def init_def newHolePuncher_def inFlightAt_def)

lemma invariants_run:
  "activeInv s \<and> countInv s \<and> closeInv s \<Longrightarrow>
   activeInv (run h s acts) \<and> countInv (run h s acts) \<and> closeInv (run h s acts)"
proof (induction acts arbitrary: s)
  case Nil
  then show ?case by (simp add: run_def)
next
  case (Cons a acts)
  have "activeInv (step h s a) \<and> countInv (step h s a) \<and> closeInv (step h s a)"
    using Cons.prems by (simp add: activeInv_step countInv_step closeInv_step)
  from Cons.IH [OF this] show ?case by (simp add: run_def)
qed

lemma invariants_reachable:
  "activeInv (run h (init flt) acts) \<and> countInv (run h (init flt) acts) \<and>
   closeInv (run h (init flt) acts)"
  using invariants_init by (rule invariants_run)

lemma countInv_drained:
  assumes "countInv s" and "refCount (coord s) = 0"
  shows "\<not> countedAt s i"
proof
  assume "countedAt s i"
  then have "0 < length (filter counted (tasks s))"
    using filter_pos [of i "tasks s" counted] by (simp add: countedAt_def)
  then show False using assms by (simp add: countInv_def)
qed

lemma countInv_blocked:
  assumes "countInv s" and "countedAt s i"
  shows "refCount (coord s) \<noteq> 0"
  using assms countInv_drained by blast

lemma countInv_zero:
  assumes "countInv s" and "\<forall>k. \<not> countedAt s k"
  shows "refCount (coord s) = 0"
proof -
  have "filter counted (tasks s) = []"
    using assms(2) by (auto simp add: filter_empty_conv countedAt_def in_set_conv_nth)
  then show ?thesis using assms(1) by (simp add: countInv_def)
qed

subsection \<open>The sample inputs\<close>

lemma strOk_impl:
  "initiateHolePunchImpl h0 hp0 strOk =
     (([''/ip4/5.6.7.8''], [''/ip4/1.2.3.4''], 200, None),
      [EvSetService, EvReserveMemory, EvSetDeadline, EvListenAddrs, EvNow,
       EvWriteMsg \<lparr>Type = CONNECT, ObsAddrs = [''/ip4/1.2.3.4'']\<rparr>, EvReadMsg, EvSince,
       EvWriteMsg \<lparr>Type = SYNC, ObsAddrs = []\<rparr>, EvReleaseMemory])"
  by (simp add: initiateHolePunchImpl_def h0_def hp0_def strOk_def newHolePuncher_def
      localObsAddrs_def remoteAddrs_def removeRelayAddrs_def connectMsg_def syncMsg_def Let_def)

lemma iterTimeout_exchange:
  "initiateHolePunch h0 hp0 iterTimeout ''QmB'' =
     (([''/ip4/5.6.7.8''], [''/ip4/1.2.3.4''], 200, None),
      [EvNewStream ''QmB'', EvSetService, EvReserveMemory, EvSetDeadline, EvListenAddrs, EvNow,
       EvWriteMsg \<lparr>Type = CONNECT, ObsAddrs = [''/ip4/1.2.3.4'']\<rparr>, EvReadMsg, EvSince,
       EvWriteMsg \<lparr>Type = SYNC, ObsAddrs = []\<rparr>, EvReleaseMemory, EvStreamClose])"
  by (simp add: initiateHolePunch_def iterTimeout_def strOk_impl)

lemma iterTimeout_connectFailed: "connectFailed h0 hp0 iterTimeout ''QmB''"
  by (simp add: connectFailed_def exchangeErr_def iterTimeout_exchange) (simp add: iterTimeout_def)

lemma iterProtocolError_exchange:
  "exchangeErr h0 hp0 iterProtocolError ''QmB'' =
     Some (Errorf ''failed to initiateHolePunch: %w''
             [ArgErr (Errorf ''expect CONNECT message, got %s'' [ArgType SYNC])])"
  by (simp add: exchangeErr_def initiateHolePunch_def iterProtocolError_def iterTimeout_def
      initiateHolePunchImpl_def h0_def hp0_def strOk_def strWrongKind_def newHolePuncher_def
      localObsAddrs_def remoteAddrs_def removeRelayAddrs_def connectMsg_def syncMsg_def Let_def)

lemma iterCancelled_exchange:
  "exchangeErr h0 hp0 iterCancelled ''QmB'' = None \<and> selectCase iterCancelled = CtxDone"
proof -
  have "initiateHolePunch h0 hp0 iterCancelled ''QmB'' = initiateHolePunch h0 hp0 iterTimeout ''QmB''"
    by (simp add: initiateHolePunch_def iterCancelled_def iterTimeout_def)
  then show ?thesis
    by (simp add: exchangeErr_def iterTimeout_exchange) (simp add: iterCancelled_def)
qed

lemma envAllTimeout_reaches: "reachesLoop h0 hp0 envAllTimeout ''QmB''"
  by (simp add: reachesLoop_def envAllTimeout_def h0_def)

lemma envSecond_reaches:
  "reachesLoop h0 hp0 envSecondFails ''QmB''" "reachesLoop h0 hp0 envSecondCancelled ''QmB''"
  by (simp_all add: reachesLoop_def envSecondFails_def envSecondCancelled_def envAllTimeout_def h0_def)

lemma hp0_open: "\<not> closed hp0 \<and> ''QmB'' \<notin> active hp0 \<and> legacyBehavior hp0"
  by (simp add: hp0_def newHolePuncher_def)


lemma strNoLocal_facts:
  "setServiceErr strNoLocal = None \<and> reserveMemoryErr strNoLocal = None \<and>
   localObsAddrs h0 hp0 strNoLocal = []"
  by (simp add: strNoLocal_def strOk_def localObsAddrs_def removeRelayAddrs_def h0_def hp0_def
      newHolePuncher_def)

lemma strNoRemote_facts:
  "setServiceErr strNoRemote = None \<and> reserveMemoryErr strNoRemote = None \<and>
   localObsAddrs h0 hp0 strNoRemote = [''/ip4/1.2.3.4''] \<and> writeConnectErr strNoRemote = None \<and>
   readMsg strNoRemote = Inr \<lparr>Type = CONNECT, ObsAddrs = [''/p2p-circuit'']\<rparr> \<and>
   remoteAddrs h0 hp0 strNoRemote \<lparr>Type = CONNECT, ObsAddrs = [''/p2p-circuit'']\<rparr> = []"
  by (simp add: strNoRemote_def strOk_def localObsAddrs_def remoteAddrs_def removeRelayAddrs_def
      h0_def hp0_def newHolePuncher_def)

lemma strWrongKind_facts:
  "setServiceErr strWrongKind = None \<and> reserveMemoryErr strWrongKind = None \<and>
   localObsAddrs h0 hp0 strWrongKind = [''/ip4/1.2.3.4''] \<and> writeConnectErr strWrongKind = None \<and>
   readMsg strWrongKind = Inr \<lparr>Type = SYNC, ObsAddrs = []\<rparr>"
  by (simp add: strWrongKind_def strOk_def localObsAddrs_def removeRelayAddrs_def
      h0_def hp0_def newHolePuncher_def)

lemma actsSpawned_run:
  "run h0 (init None) actsSpawned =
     \<lparr>coord = hp0\<lparr>ctxDone := True, refCount := 1, active := {''QmB''}, closed := True\<rparr>,
      tasks = [InFlight True ''QmB''], closeCall = Cancelled\<rparr>"
  by (simp add: actsSpawned_def run_def init_def hp0_def newHolePuncher_def admit_cases)

section \<open>The claims\<close>




text \<open>
  C2. In the retry loop, when \<^verbatim>\<open>initiateHolePunch\<close> returns an error in
  iteration \<open>i\<close> (the iterations before it having failed only in the timed
  connect), \<^verbatim>\<open>DirectConnect\<close> returns that very error, \<open>i\<close> iterations have
  been started and no more, and the last call made is the tracer's
  \<^verbatim>\<open>ProtocolError\<close>. The loop body goes on to the next iteration exactly when
  the exchange succeeded, the timer fired and the timed connect failed.
\<close>

theorem rendezvous_error_ends_loop:
  assumes "\<not> closed hp" and "p \<notin> active hp" and "reachesLoop h hp env p"
    and "1 \<le> i" and "i \<le> maxRetries"
    and "\<forall>j. 1 \<le> j \<and> j < i \<longrightarrow> connectFailed h hp (iter env j) p"
    and "exchangeErr h hp (iter env i) p = Some e"
  shows "fst (snd (DirectConnect h hp env p)) = Some e \<and>
         iterationsStarted (snd (snd (DirectConnect h hp env p))) = i \<and>
         last (snd (snd (DirectConnect h hp env p))) = TrProtocolError p e \<and>
         (\<forall>ie k. (fst (holePunchIteration h hp ie p k) = Continue) =
                 (exchangeErr h hp ie p = None \<and> selectCase ie = TimerFired \<and>
                  holePunchConnectErr ie \<noteq> None))"
proof -
  have it: "holePunchIteration h hp (iter env i) p i =
      (Return (Some e), snd (initiateHolePunch h hp (iter env i) p) @ [TrProtocolError p e])"
    using assms(7) by (rule iteration_exchange_error)
  then have r: "fst (holePunchIteration h hp (iter env i) p i) = Return (Some e)"
    by simp
  have c: "\<forall>j. 1 \<le> j \<and> j < i \<longrightarrow> fst (holePunchIteration h hp (iter env j) p j) = Continue"
    using assms(6) by (simp add: iteration_continue_iff)
  have st: "fst (holePunchLoop h hp (iter env) p 1) = Some e \<and>
      iterationsStarted (snd (holePunchLoop h hp (iter env) p 1)) = Suc (i - 1) \<and>
      (\<exists>pre. snd (holePunchLoop h hp (iter env) p 1) =
         pre @ snd (holePunchIteration h hp (iter env i) p i))"
    by (rule loop_stops_at [where env = "iter env" and k = 1 and i = i, OF assms(4) assms(5) c r])
  then obtain pre where l: "fst (holePunchLoop h hp (iter env) p 1) = Some e"
    "iterationsStarted (snd (holePunchLoop h hp (iter env) p 1)) = Suc (i - 1)"
    "snd (holePunchLoop h hp (iter env) p 1) = pre @ snd (holePunchIteration h hp (iter env i) p i)"
    by blast
  have i: "Suc (i - 1) = i" using assms(4) by simp
  have d: "DirectConnect h hp env p = (hp, directConnect h hp env p)"
    using assms(1) assms(2) by (rule DirectConnect_admitted)
  show ?thesis
    using l i by (simp add: d directConnect_loop [OF assms(3)] it iteration_continue_iff
        connectFailed_def)
qed

theorem rendezvous_error_ends_loop_witness:
  "fst (snd (DirectConnect h0 hp0 envSecondFails ''QmB'')) =
     Some (Errorf ''failed to initiateHolePunch: %w''
             [ArgErr (Errorf ''expect CONNECT message, got %s'' [ArgType SYNC])]) \<and>
   iterationsStarted (snd (snd (DirectConnect h0 hp0 envSecondFails ''QmB''))) = 2"
proof -
  have a: "\<forall>j. 1 \<le> j \<and> j < (2::nat) \<longrightarrow> connectFailed h0 hp0 (iter envSecondFails j) ''QmB''"
    using iterTimeout_connectFailed by (simp add: envSecondFails_def envAllTimeout_def)
  have b: "exchangeErr h0 hp0 (iter envSecondFails 2) ''QmB'' =
     Some (Errorf ''failed to initiateHolePunch: %w''
             [ArgErr (Errorf ''expect CONNECT message, got %s'' [ArgType SYNC])])"
    using iterProtocolError_exchange by (simp add: envSecondFails_def envAllTimeout_def)
  have c: "(1::nat) \<le> 2" "2 \<le> maxRetries" by (simp_all add: maxRetries_def)
  show ?thesis
    using rendezvous_error_ends_loop [where i = 2, OF _ _ envSecond_reaches(1) c a b] hp0_open
    by simp
qed

text \<open>
  C3, as the code has it. When every exchange succeeds and the timed connect
  fails in each of the \<open>maxRetries = 3\<close> iterations, \<^verbatim>\<open>DirectConnect\<close> returns
  the error \<^verbatim>\<open>fmt.Errorf("all retries for hole punch with peer %s failed", rp)\<close>,
  whose only argument is the peer, after exactly three iterations and three
  timed connects; the retry count goes to the tracer, whose
  \<^verbatim>\<open>HolePunchFinished\<close> with count 3 is the last call made.
\<close>

theorem retries_exhausted:
  assumes "\<not> closed hp" and "p \<notin> active hp" and "reachesLoop h hp env p"
    and "\<forall>j. 1 \<le> j \<and> j \<le> maxRetries \<longrightarrow> connectFailed h hp (iter env j) p"
  shows "fst (snd (DirectConnect h hp env p)) =
           Some (Errorf ''all retries for hole punch with peer %s failed'' [ArgPeer p]) \<and>
         namesPeer p (Errorf ''all retries for hole punch with peer %s failed'' [ArgPeer p]) \<and>
         iterationsStarted (snd (snd (DirectConnect h hp env p))) = 3 \<and>
         length (roles (snd (snd (DirectConnect h hp env p)))) = 3 \<and>
         last (snd (snd (DirectConnect h hp env p))) =
           TrHolePunchFinished ''initiator'' 3 (exchangeAddrs h hp (iter env 3) p)
             (exchangeObsAddrs h hp (iter env 3) p) None"
proof -
  have c: "\<forall>j. 1 \<le> j \<and> j \<le> maxRetries \<longrightarrow>
      fst (holePunchIteration h hp (iter env j) p j) = Continue"
    using assms(4) by (simp add: iteration_continue_iff)
  have one: "(1::nat) \<le> Suc maxRetries" "(1::nat) \<le> maxRetries"
    by (simp_all add: maxRetries_def)
  have a: "fst (holePunchLoop h hp (iter env) p 1) =
      Some (Errorf ''all retries for hole punch with peer %s failed'' [ArgPeer p]) \<and>
      iterationsStarted (snd (holePunchLoop h hp (iter env) p 1)) = Suc maxRetries - 1"
    by (rule loop_all_continue [where env = "iter env" and k = 1, OF one(1) c])
  have r: "roles (snd (holePunchLoop h hp (iter env) p 1)) =
      replicate (Suc maxRetries - 1) (\<not> legacyBehavior hp)"
    by (rule loop_all_roles [where env = "iter env" and k = 1, OF one(1) assms(4)])
  obtain pre where l: "snd (holePunchLoop h hp (iter env) p 1) =
      pre @ snd (holePunchIteration h hp (iter env maxRetries) p maxRetries)"
    using loop_all_last [where env = "iter env" and k = 1, OF one(2) assms(4)] by blast
  have "connectFailed h hp (iter env maxRetries) p"
    using assms(4) by (simp add: maxRetries_def)
  from iteration_last_retry [OF this]
  obtain pre' where l': "snd (holePunchIteration h hp (iter env maxRetries) p maxRetries) =
      pre' @ [TrHolePunchFinished ''initiator'' maxRetries (exchangeAddrs h hp (iter env maxRetries) p)
              (exchangeObsAddrs h hp (iter env maxRetries) p) None]"
    by blast
  have d: "DirectConnect h hp env p = (hp, directConnect h hp env p)"
    using assms(1) assms(2) by (rule DirectConnect_admitted)
  have la: "last (snd (holePunchLoop h hp (iter env) p 1)) =
      TrHolePunchFinished ''initiator'' 3 (exchangeAddrs h hp (iter env 3) p)
             (exchangeObsAddrs h hp (iter env 3) p) None"
    by (simp only: l l' append_assoc [symmetric] last_snoc) (simp add: maxRetries_def)
  have ne: "snd (holePunchLoop h hp (iter env) p 1) \<noteq> []"
    by (simp only: l l') simp
  show ?thesis
    using a r la ne
    by (simp add: d directConnect_loop [OF assms(3)] namesPeer_def) (simp add: maxRetries_def)
qed

theorem retries_exhausted_witness:
  "fst (snd (DirectConnect h0 hp0 envAllTimeout ''QmB'')) =
     Some (Errorf ''all retries for hole punch with peer %s failed'' [ArgPeer ''QmB'']) \<and>
   iterationsStarted (snd (snd (DirectConnect h0 hp0 envAllTimeout ''QmB''))) = 3"
proof -
  have a: "\<forall>j. 1 \<le> j \<and> j \<le> maxRetries \<longrightarrow> connectFailed h0 hp0 (iter envAllTimeout j) ''QmB''"
    using iterTimeout_connectFailed by (simp add: envAllTimeout_def)
  show ?thesis
    using retries_exhausted [OF _ _ envAllTimeout_reaches a] hp0_open
    by simp
qed

text \<open>
  C3, as stated, fails: with three successful exchanges and three timed-out
  connects the error returned names the peer and no retry count.
\<close>

theorem aggregate_error_names_no_count:
  "connectFailed h0 hp0 (iter envAllTimeout 1) ''QmB'' \<and>
   connectFailed h0 hp0 (iter envAllTimeout 2) ''QmB'' \<and>
   connectFailed h0 hp0 (iter envAllTimeout 3) ''QmB'' \<and>
   fst (snd (DirectConnect h0 hp0 envAllTimeout ''QmB'')) =
     Some (Errorf ''all retries for hole punch with peer %s failed'' [ArgPeer ''QmB'']) \<and>
   \<not> namesNumber 3 (Errorf ''all retries for hole punch with peer %s failed'' [ArgPeer ''QmB''])"
proof -
  have f: "connectFailed h0 hp0 (iter envAllTimeout j) ''QmB''" for j
    using iterTimeout_connectFailed by (simp add: envAllTimeout_def)
  then have c: "\<forall>j. 1 \<le> j \<and> j \<le> maxRetries \<longrightarrow>
      fst (holePunchIteration h0 hp0 (iter envAllTimeout j) ''QmB'' j) = Continue"
    by (simp add: iteration_continue_iff)
  have one: "(1::nat) \<le> Suc maxRetries" by simp
  have a: "fst (holePunchLoop h0 hp0 (iter envAllTimeout) ''QmB'' 1) =
      Some (Errorf ''all retries for hole punch with peer %s failed'' [ArgPeer ''QmB''])"
    using loop_all_continue [where env = "iter envAllTimeout" and k = 1, OF one c] by simp
  have d: "DirectConnect h0 hp0 envAllTimeout ''QmB'' = (hp0, directConnect h0 hp0 envAllTimeout ''QmB'')"
    using hp0_open by (simp add: DirectConnect_admitted)
  have n: "\<not> namesNumber 3 (Errorf ''all retries for hole punch with peer %s failed'' [ArgPeer ''QmB''])"
    by (simp add: namesNumber_def digitChar_def sublist_Cons_right)
  show ?thesis
    using f a n by (simp add: d directConnect_loop [OF envAllTimeout_reaches])
qed

text \<open>
  C4. Once the stream is attached to the service and its memory is reserved,
  the exchange \<^verbatim>\<open>initiateHolePunchImpl\<close> fails with a no-public-address error
  and writes no SYNC in both cases: (a) when the listen addresses, relay
  addresses removed and the local filter applied, are empty, the error is
  "aborting hole punch initiation as we have no public address" and nothing is
  written at all; (b) when the reply is a CONNECT whose addresses, relay
  addresses removed and the remote filter applied, are empty, the error is
  "didn't receive any public addresses in CONNECT" and only the CONNECT has
  been written.
\<close>

theorem no_public_address_before_sync:
  assumes "setServiceErr str = None" and "reserveMemoryErr str = None"
  shows "(localObsAddrs h hp str = [] \<longrightarrow>
            fst (initiateHolePunchImpl h hp str) =
              ([], [], 0,
               Some (ErrorsNew ''aborting hole punch initiation as we have no public address'')) \<and>
            sent (snd (initiateHolePunchImpl h hp str)) = []) \<and>
         (localObsAddrs h hp str \<noteq> [] \<and> writeConnectErr str = None \<and>
          readMsg str = Inr msg \<and> Type msg = CONNECT \<and> remoteAddrs h hp str msg = [] \<longrightarrow>
            fst (initiateHolePunchImpl h hp str) =
              ([], [], 0, Some (ErrorsNew ''didn't receive any public addresses in CONNECT'')) \<and>
            sent (snd (initiateHolePunchImpl h hp str)) = [connectMsg h (localObsAddrs h hp str)] \<and>
            syncMsg \<notin> set (sent (snd (initiateHolePunchImpl h hp str))))"
proof (intro conjI impI)
  assume a: "localObsAddrs h hp str = []"
  show "fst (initiateHolePunchImpl h hp str) =
      ([], [], 0, Some (ErrorsNew ''aborting hole punch initiation as we have no public address''))"
    by (simp add: impl_no_local [OF assms a])
  show "sent (snd (initiateHolePunchImpl h hp str)) = []"
    by (simp add: impl_no_local [OF assms a])
next
  assume b: "localObsAddrs h hp str \<noteq> [] \<and> writeConnectErr str = None \<and>
          readMsg str = Inr msg \<and> Type msg = CONNECT \<and> remoteAddrs h hp str msg = []"
  then have r: "initiateHolePunchImpl h hp str =
      (([], [], 0, Some (ErrorsNew ''didn't receive any public addresses in CONNECT'')),
         [EvSetService, EvReserveMemory, EvSetDeadline, EvListenAddrs, EvNow,
          EvWriteMsg (connectMsg h (localObsAddrs h hp str)), EvReadMsg, EvSince,
          EvReleaseMemory])"
    using impl_replied [OF assms, of h hp msg] by simp
  show "fst (initiateHolePunchImpl h hp str) =
      ([], [], 0, Some (ErrorsNew ''didn't receive any public addresses in CONNECT''))"
    by (simp add: r)
  show "sent (snd (initiateHolePunchImpl h hp str)) = [connectMsg h (localObsAddrs h hp str)]"
    by (simp add: r)
  show "syncMsg \<notin> set (sent (snd (initiateHolePunchImpl h hp str)))"
    by (simp add: r connectMsg_def syncMsg_def)
qed

theorem no_public_address_before_sync_witness:
  "fst (initiateHolePunchImpl h0 hp0 strNoLocal) =
     ([], [], 0, Some (ErrorsNew ''aborting hole punch initiation as we have no public address'')) \<and>
   sent (snd (initiateHolePunchImpl h0 hp0 strNoLocal)) = [] \<and>
   fst (initiateHolePunchImpl h0 hp0 strNoRemote) =
     ([], [], 0, Some (ErrorsNew ''didn't receive any public addresses in CONNECT'')) \<and>
   sent (snd (initiateHolePunchImpl h0 hp0 strNoRemote)) =
     [\<lparr>Type = CONNECT, ObsAddrs = [''/ip4/1.2.3.4'']\<rparr>]"
proof -
  have a: "setServiceErr strNoLocal = None" "reserveMemoryErr strNoLocal = None"
    using strNoLocal_facts by simp_all
  have b: "setServiceErr strNoRemote = None" "reserveMemoryErr strNoRemote = None"
    using strNoRemote_facts by simp_all
  have c: "addrsToBytes h0 [''/ip4/1.2.3.4''] = [''/ip4/1.2.3.4'']"
    by (simp add: h0_def)
  show ?thesis
    using no_public_address_before_sync [OF a, of h0 hp0]
      no_public_address_before_sync [OF b, of h0 hp0 "\<lparr>Type = CONNECT, ObsAddrs = [''/p2p-circuit'']\<rparr>"]
      strNoLocal_facts strNoRemote_facts
    by (simp add: connectMsg_def c)
qed

text \<open>
  C5. An exchange that returns without error has made exactly these calls on
  the stream and the clock, in this order: the clock is read, one CONNECT
  carrying the encoded filtered local addresses is written, one message is
  read, the clock is read again, one SYNC with no addresses is written. The
  message read is of kind CONNECT, and the round-trip time returned is the
  second clock reading minus the first. A reply of any other kind fails the
  exchange with the error "expect CONNECT message, got ...", after the clock
  was read the second time and with no SYNC written.
\<close>

theorem exchange_sequence:
  "(snd (snd (snd (fst (initiateHolePunchImpl h hp str)))) = None \<longrightarrow>
      (\<exists>msg. readMsg str = Inr msg \<and> Type msg = CONNECT \<and>
         fst (initiateHolePunchImpl h hp str) =
           (remoteAddrs h hp str msg, localObsAddrs h hp str, clockRecv str - clockStart str, None)) \<and>
      snd (initiateHolePunchImpl h hp str) =
        [EvSetService, EvReserveMemory, EvSetDeadline, EvListenAddrs, EvNow,
         EvWriteMsg \<lparr>Type = CONNECT, ObsAddrs = addrsToBytes h (localObsAddrs h hp str)\<rparr>,
         EvReadMsg, EvSince, EvWriteMsg \<lparr>Type = SYNC, ObsAddrs = []\<rparr>, EvReleaseMemory]) \<and>
   (setServiceErr str = None \<and> reserveMemoryErr str = None \<and> localObsAddrs h hp str \<noteq> [] \<and>
    writeConnectErr str = None \<and> readMsg str = Inr msg \<and> Type msg \<noteq> CONNECT \<longrightarrow>
      initiateHolePunchImpl h hp str =
        (([], [], 0, Some (Errorf ''expect CONNECT message, got %s'' [ArgType (Type msg)])),
         [EvSetService, EvReserveMemory, EvSetDeadline, EvListenAddrs, EvNow,
          EvWriteMsg \<lparr>Type = CONNECT, ObsAddrs = addrsToBytes h (localObsAddrs h hp str)\<rparr>,
          EvReadMsg, EvSince, EvReleaseMemory]))"
proof (intro conjI impI)
  assume "snd (snd (snd (fst (initiateHolePunchImpl h hp str)))) = None"
  from impl_success [OF this]
  obtain m where m: "readMsg str = Inr m" "Type m = CONNECT"
    "initiateHolePunchImpl h hp str =
       ((remoteAddrs h hp str m, localObsAddrs h hp str, clockRecv str - clockStart str, None),
        [EvSetService, EvReserveMemory, EvSetDeadline, EvListenAddrs, EvNow,
         EvWriteMsg (connectMsg h (localObsAddrs h hp str)), EvReadMsg, EvSince,
         EvWriteMsg syncMsg, EvReleaseMemory])"
    by blast
  show "\<exists>msg. readMsg str = Inr msg \<and> Type msg = CONNECT \<and>
         fst (initiateHolePunchImpl h hp str) =
           (remoteAddrs h hp str msg, localObsAddrs h hp str, clockRecv str - clockStart str, None)"
    using m by simp
  show "snd (initiateHolePunchImpl h hp str) =
        [EvSetService, EvReserveMemory, EvSetDeadline, EvListenAddrs, EvNow,
         EvWriteMsg \<lparr>Type = CONNECT, ObsAddrs = addrsToBytes h (localObsAddrs h hp str)\<rparr>,
         EvReadMsg, EvSince, EvWriteMsg \<lparr>Type = SYNC, ObsAddrs = []\<rparr>, EvReleaseMemory]"
    using m by (simp add: connectMsg_def syncMsg_def)
next
  assume a: "setServiceErr str = None \<and> reserveMemoryErr str = None \<and> localObsAddrs h hp str \<noteq> [] \<and>
    writeConnectErr str = None \<and> readMsg str = Inr msg \<and> Type msg \<noteq> CONNECT"
  then show "initiateHolePunchImpl h hp str =
        (([], [], 0, Some (Errorf ''expect CONNECT message, got %s'' [ArgType (Type msg)])),
         [EvSetService, EvReserveMemory, EvSetDeadline, EvListenAddrs, EvNow,
          EvWriteMsg \<lparr>Type = CONNECT, ObsAddrs = addrsToBytes h (localObsAddrs h hp str)\<rparr>,
          EvReadMsg, EvSince, EvReleaseMemory])"
    using impl_replied [of str h hp msg] by (simp add: connectMsg_def)
qed

theorem exchange_sequence_witness:
  "snd (initiateHolePunchImpl h0 hp0 strOk) =
     [EvSetService, EvReserveMemory, EvSetDeadline, EvListenAddrs, EvNow,
      EvWriteMsg \<lparr>Type = CONNECT, ObsAddrs = [''/ip4/1.2.3.4'']\<rparr>,
      EvReadMsg, EvSince, EvWriteMsg \<lparr>Type = SYNC, ObsAddrs = []\<rparr>, EvReleaseMemory] \<and>
   initiateHolePunchImpl h0 hp0 strWrongKind =
     (([], [], 0, Some (Errorf ''expect CONNECT message, got %s'' [ArgType SYNC])),
      [EvSetService, EvReserveMemory, EvSetDeadline, EvListenAddrs, EvNow,
       EvWriteMsg \<lparr>Type = CONNECT, ObsAddrs = [''/ip4/1.2.3.4'']\<rparr>,
       EvReadMsg, EvSince, EvReleaseMemory])"
proof -
  have ok: "snd (snd (snd (fst (initiateHolePunchImpl h0 hp0 strOk)))) = None"
    by (simp add: strOk_impl)
  have s1: "snd (initiateHolePunchImpl h0 hp0 strOk) =
     [EvSetService, EvReserveMemory, EvSetDeadline, EvListenAddrs, EvNow,
      EvWriteMsg \<lparr>Type = CONNECT, ObsAddrs = addrsToBytes h0 (localObsAddrs h0 hp0 strOk)\<rparr>,
      EvReadMsg, EvSince, EvWriteMsg \<lparr>Type = SYNC, ObsAddrs = []\<rparr>, EvReleaseMemory]"
    using exchange_sequence [of h0 hp0 strOk] ok by blast
  have w: "setServiceErr strWrongKind = None \<and> reserveMemoryErr strWrongKind = None \<and>
      localObsAddrs h0 hp0 strWrongKind \<noteq> [] \<and> writeConnectErr strWrongKind = None \<and>
      readMsg strWrongKind = Inr \<lparr>Type = SYNC, ObsAddrs = []\<rparr> \<and>
      Type \<lparr>Type = SYNC, ObsAddrs = []\<rparr> \<noteq> CONNECT"
    using strWrongKind_facts by simp
  have s2: "initiateHolePunchImpl h0 hp0 strWrongKind =
        (([], [], 0, Some (Errorf ''expect CONNECT message, got %s''
                             [ArgType (Type \<lparr>Type = SYNC, ObsAddrs = []\<rparr>)])),
         [EvSetService, EvReserveMemory, EvSetDeadline, EvListenAddrs, EvNow,
          EvWriteMsg \<lparr>Type = CONNECT, ObsAddrs = addrsToBytes h0 (localObsAddrs h0 hp0 strWrongKind)\<rparr>,
          EvReadMsg, EvSince, EvReleaseMemory])"
    using exchange_sequence [of h0 hp0 strWrongKind "\<lparr>Type = SYNC, ObsAddrs = []\<rparr>"] w by blast
  have l: "localObsAddrs h0 hp0 strOk = [''/ip4/1.2.3.4'']"
    "localObsAddrs h0 hp0 strWrongKind = [''/ip4/1.2.3.4'']"
    "addrsToBytes h0 [''/ip4/1.2.3.4''] = [''/ip4/1.2.3.4'']"
    using strWrongKind_facts
    by (simp_all add: strOk_def localObsAddrs_def removeRelayAddrs_def h0_def hp0_def
        newHolePuncher_def)
  show ?thesis
    using s1 s2 by (simp add: l)
qed



text \<open>
  C7, as the code has it. \<^verbatim>\<open>Close\<close> returns nil and nothing else. Once its
  first step has run the coordinator is closed, and once its second has run the
  context is cancelled, so that every \<^verbatim>\<open>select\<close> on \<^verbatim>\<open>ctx.Done()\<close> may take
  that case. \<^verbatim>\<open>Close\<close> stays blocked in \<^verbatim>\<open>refCount.Wait()\<close> while a goroutine
  started by \<^verbatim>\<open>Connected\<close> has not ended, whether it waits for identify or is
  inside \<^verbatim>\<open>DirectConnect\<close>, and returns when none is left. From the first step
  of \<^verbatim>\<open>Close\<close> on, every new call of \<^verbatim>\<open>DirectConnect\<close>, direct or made by such a
  goroutine, returns \<^verbatim>\<open>ErrClosed\<close> at once. Calls of \<^verbatim>\<open>DirectConnect\<close> made
  directly are not counted, and \<^verbatim>\<open>Close\<close> does not wait for them.
\<close>

theorem close_waits_for_counted_goroutines:
  assumes "s = run h (init flt) acts"
  shows "(closeCall s = CloseReturned r \<longrightarrow> r = None) \<and>
         (closeCall s \<noteq> NotCalled \<longrightarrow> closed (coord s)) \<and>
         (closeCall s = Cancelled \<or> closeCall s = CloseReturned None \<longrightarrow>
            ctxDone (coord s) \<and> selectAllowed (coord s) env) \<and>
         (closeCall s = Cancelled \<and> countedAt s i \<longrightarrow> step h s ACloseWait = s) \<and>
         (closeCall s = Cancelled \<and> (\<forall>k. \<not> countedAt s k) \<longrightarrow>
            step h s ACloseWait = s\<lparr>closeCall := CloseReturned None\<rparr>) \<and>
         (closeCall s \<noteq> NotCalled \<longrightarrow>
            step h s (ACall p) = s\<lparr>tasks := tasks s @ [Finished (Some ErrClosed)]\<rparr>) \<and>
         (closeCall s \<noteq> NotCalled \<and> i < length (tasks s) \<and> tasks s ! i = Waiting p \<longrightarrow>
            tasks (step h s (AIdentified i)) ! i = Finished (Some ErrClosed))"
proof -
  have inv: "countInv s" "closeInv s" using assms invariants_reachable by simp_all
  have 1: "closeCall s = CloseReturned r \<longrightarrow> r = None"
    using inv(2) by (simp add: closeInv_def)
  have 2: "closeCall s \<noteq> NotCalled \<longrightarrow> closed (coord s)"
    using inv(2) by (simp add: closeInv_def)
  have 3: "closeCall s = Cancelled \<or> closeCall s = CloseReturned None \<longrightarrow>
      ctxDone (coord s) \<and> selectAllowed (coord s) env"
    using inv(2) by (auto simp add: closeInv_def selectAllowed_def)
  have 4: "closeCall s = Cancelled \<and> countedAt s i \<longrightarrow> step h s ACloseWait = s"
    using countInv_blocked [OF inv(1), of i] by auto
  have 5: "closeCall s = Cancelled \<and> (\<forall>k. \<not> countedAt s k) \<longrightarrow>
      step h s ACloseWait = s\<lparr>closeCall := CloseReturned None\<rparr>"
    using countInv_zero [OF inv(1)] by auto
  have 6: "closeCall s \<noteq> NotCalled \<longrightarrow>
      step h s (ACall p) = s\<lparr>tasks := tasks s @ [Finished (Some ErrClosed)]\<rparr>"
    using 2 by (auto simp add: admit_cases)
  have 7: "closeCall s \<noteq> NotCalled \<and> i < length (tasks s) \<and> tasks s ! i = Waiting p \<longrightarrow>
      tasks (step h s (AIdentified i)) ! i = Finished (Some ErrClosed)"
    using 2 by (auto simp add: admit_cases)
  show ?thesis using 1 2 3 4 5 6 7 by blast
qed

theorem close_waits_for_counted_goroutines_witness:
  "closeCall (run h0 (init None) actsSpawned) = Cancelled \<and>
   countedAt (run h0 (init None) actsSpawned) 0 \<and>
   step h0 (run h0 (init None) actsSpawned) ACloseWait = run h0 (init None) actsSpawned \<and>
   step h0 (run h0 (init None) actsSpawned) (ACall ''QmC'') =
     (run h0 (init None) actsSpawned)
       \<lparr>tasks := tasks (run h0 (init None) actsSpawned) @ [Finished (Some ErrClosed)]\<rparr>"
proof -
  have f: "closeCall (run h0 (init None) actsSpawned) = Cancelled \<and>
      countedAt (run h0 (init None) actsSpawned) 0 \<and>
      closeCall (run h0 (init None) actsSpawned) \<noteq> NotCalled"
    by (simp add: actsSpawned_run countedAt_def)
  show ?thesis
    using close_waits_for_counted_goroutines
      [where s = "run h0 (init None) actsSpawned" and h = h0 and flt = None and acts = actsSpawned
        and i = 0 and p = "''QmC''"] f
    by blast
qed

text \<open>
  C7, as stated, fails in its third part: after a direct call of
  \<^verbatim>\<open>DirectConnect\<close> has been admitted, \<^verbatim>\<open>Close\<close> runs to its end and returns
  nil while that call is still in flight.
\<close>

theorem close_returns_with_direct_call_in_flight:
  "closeCall (run h0 (init None) [ACall ''QmB'', ACloseLock, ACloseCancel, ACloseWait]) =
     CloseReturned None \<and>
   tasks (run h0 (init None) [ACall ''QmB'', ACloseLock, ACloseCancel, ACloseWait]) =
     [InFlight False ''QmB'']"
  by (simp add: run_def init_def newHolePuncher_def admit_cases)

text \<open>
  C8. When, in iteration \<open>i\<close> of the retry loop, the exchange has succeeded and
  the \<^verbatim>\<open>select\<close> on the timer and on \<^verbatim>\<open>hp.ctx.Done()\<close> takes the
  cancellation case, \<^verbatim>\<open>DirectConnect\<close> returns the context's error: \<open>i\<close>
  iterations have been started and no more, the timed connect of iteration \<open>i\<close>
  was never made (\<open>i - 1\<close> connects in all), and the last call made is
  \<^verbatim>\<open>timer.Stop()\<close>.
\<close>

theorem cancellation_during_wait_ends_loop:
  assumes "\<not> closed hp" and "p \<notin> active hp" and "reachesLoop h hp env p"
    and "1 \<le> i" and "i \<le> maxRetries"
    and "\<forall>j. 1 \<le> j \<and> j < i \<longrightarrow> connectFailed h hp (iter env j) p"
    and "exchangeErr h hp (iter env i) p = None"
    and "selectCase (iter env i) = CtxDone"
  shows "fst (snd (DirectConnect h hp env p)) = Some ContextCanceled \<and>
         iterationsStarted (snd (snd (DirectConnect h hp env p))) = i \<and>
         length (roles (snd (snd (DirectConnect h hp env p)))) = i - 1 \<and>
         last (snd (snd (DirectConnect h hp env p))) = EvTimerStop"
proof -
  have it: "holePunchIteration h hp (iter env i) p i =
      (Return (Some ContextCanceled),
       snd (initiateHolePunch h hp (iter env i) p) @
         [EvNewTimer (exchangeRtt h hp (iter env i) p sdiv 2), EvTimerStop])"
    using assms(7) assms(8) by (rule iteration_cancelled)
  then have r: "fst (holePunchIteration h hp (iter env i) p i) = Return (Some ContextCanceled)"
    by simp
  have c: "\<forall>j. 1 \<le> j \<and> j < i \<longrightarrow> fst (holePunchIteration h hp (iter env j) p j) = Continue"
    using assms(6) by (simp add: iteration_continue_iff)
  have st: "fst (holePunchLoop h hp (iter env) p 1) = Some ContextCanceled \<and>
      iterationsStarted (snd (holePunchLoop h hp (iter env) p 1)) = Suc (i - 1) \<and>
      (\<exists>pre. snd (holePunchLoop h hp (iter env) p 1) =
         pre @ snd (holePunchIteration h hp (iter env i) p i))"
    by (rule loop_stops_at [where env = "iter env" and k = 1 and i = i, OF assms(4) assms(5) c r])
  then obtain pre where l: "fst (holePunchLoop h hp (iter env) p 1) = Some ContextCanceled"
    "iterationsStarted (snd (holePunchLoop h hp (iter env) p 1)) = Suc (i - 1)"
    "snd (holePunchLoop h hp (iter env) p 1) = pre @ snd (holePunchIteration h hp (iter env i) p i)"
    by blast
  have ro: "roles (snd (holePunchLoop h hp (iter env) p 1)) =
      replicate (i - 1) (\<not> legacyBehavior hp) @ roles (snd (holePunchIteration h hp (iter env i) p i))"
    by (rule loop_stops_roles [where env = "iter env" and k = 1 and i = i,
          OF assms(4) assms(5) assms(6) r])
  have ri: "roles (snd (holePunchIteration h hp (iter env i) p i)) = []"
    using assms(8) by (simp add: iteration_roles)
  have i: "Suc (i - 1) = i" using assms(4) by simp
  have d: "DirectConnect h hp env p = (hp, directConnect h hp env p)"
    using assms(1) assms(2) by (rule DirectConnect_admitted)
  show ?thesis
    using l i ro ri by (simp add: d directConnect_loop [OF assms(3)] it)
qed

theorem cancellation_during_wait_ends_loop_witness:
  "fst (snd (DirectConnect h0 hp0 envSecondCancelled ''QmB'')) = Some ContextCanceled \<and>
   iterationsStarted (snd (snd (DirectConnect h0 hp0 envSecondCancelled ''QmB''))) = 2 \<and>
   length (roles (snd (snd (DirectConnect h0 hp0 envSecondCancelled ''QmB'')))) = 1"
proof -
  have a: "\<forall>j. 1 \<le> j \<and> j < (2::nat) \<longrightarrow> connectFailed h0 hp0 (iter envSecondCancelled j) ''QmB''"
    using iterTimeout_connectFailed by (simp add: envSecondCancelled_def envAllTimeout_def)
  have b: "exchangeErr h0 hp0 (iter envSecondCancelled 2) ''QmB'' = None"
    "selectCase (iter envSecondCancelled 2) = CtxDone"
    using iterCancelled_exchange by (simp_all add: envSecondCancelled_def envAllTimeout_def)
  have c: "(1::nat) \<le> 2" "2 \<le> maxRetries" by (simp_all add: maxRetries_def)
  show ?thesis
    using cancellation_during_wait_ends_loop [where i = 2, OF _ _ envSecond_reaches(2) c a b] hp0_open
    by simp
qed

text \<open>
  C9. \<^verbatim>\<open>newHolePuncher\<close> sets \<^verbatim>\<open>legacyBehavior\<close> to true. Every timed connect
  made during a call of \<^verbatim>\<open>DirectConnect\<close> is given \<^verbatim>\<open>isClient\<close> equal to the
  negation of the flag as the coordinator holds it: an iteration whose exchange
  succeeds and whose timer fires connects with \<^verbatim>\<open>isClient = false\<close> when the
  flag is true and with \<^verbatim>\<open>isClient = true\<close> when it is false.
\<close>

theorem role_follows_legacy_flag:
  "legacyBehavior (newHolePuncher flt) = True \<and>
   (\<forall>c \<in> set (roles (snd (snd (DirectConnect h hp env p)))). c = (\<not> legacyBehavior hp)) \<and>
   (exchangeErr h hp ie p = None \<and> selectCase ie = TimerFired \<and> legacyBehavior hp \<longrightarrow>
      roles (snd (holePunchIteration h hp ie p i)) = [False]) \<and>
   (exchangeErr h hp ie p = None \<and> selectCase ie = TimerFired \<and> \<not> legacyBehavior hp \<longrightarrow>
      roles (snd (holePunchIteration h hp ie p i)) = [True])"
proof -
  have dc: "\<forall>c \<in> set (roles (snd (directConnect h hp env p))). c = (\<not> legacyBehavior hp)"
  proof (cases "reachesLoop h hp env p")
    case True
    show ?thesis using loop_roles [of h hp "iter env" p 1]
      by (simp add: directConnect_loop [OF True])
  next
    case False
    obtain b evs where d: "directDial h hp env p (peerstoreAddrs env) = (b, evs)"
      by (metis prod.exhaust)
    have t: "roles evs = []"
      using directDial_trace [of h hp env p "peerstoreAddrs env"] d by simp
    show ?thesis using False d t
      by (cases "directConnBefore env") (auto simp add: directConnect_def reachesLoop_def)
  qed
  have "\<forall>c \<in> set (roles (snd (snd (DirectConnect h hp env p)))). c = (\<not> legacyBehavior hp)"
  proof (cases "closed hp \<or> p \<in> active hp")
    case True
    then show ?thesis
      by (auto simp add: DirectConnect_def beginDirectConnect_def)
  next
    case False
    then show ?thesis
      using dc by (simp add: DirectConnect_admitted)
  qed
  then show ?thesis
    by (simp add: iteration_roles newHolePuncher_def)
qed

theorem role_follows_legacy_flag_witness:
  "legacyBehavior hp0 \<and>
   roles (snd (holePunchIteration h0 hp0 iterTimeout ''QmB'' 1)) = [False] \<and>
   roles (snd (snd (DirectConnect h0 hp0 envAllTimeout ''QmB''))) = [False, False, False]"
proof -
  have f: "\<forall>j. 1 \<le> j \<and> j \<le> maxRetries \<longrightarrow> connectFailed h0 hp0 (iter envAllTimeout j) ''QmB''"
    using iterTimeout_connectFailed by (simp add: envAllTimeout_def)
  have one: "(1::nat) \<le> Suc maxRetries" by simp
  have d: "DirectConnect h0 hp0 envAllTimeout ''QmB'' = (hp0, directConnect h0 hp0 envAllTimeout ''QmB'')"
    using hp0_open by (simp add: DirectConnect_admitted)
  have n: "length (roles (snd (snd (DirectConnect h0 hp0 envAllTimeout ''QmB'')))) = 3"
    using loop_all_roles [where env = "iter envAllTimeout" and k = 1, OF one f]
    by (simp add: d directConnect_loop [OF envAllTimeout_reaches] maxRetries_def)
  then obtain a b c where l: "roles (snd (snd (DirectConnect h0 hp0 envAllTimeout ''QmB''))) = [a, b, c]"
    by (auto simp add: length_Suc_conv numeral_3_eq_3)
  show ?thesis
    using role_follows_legacy_flag [of None h0 hp0 envAllTimeout "''QmB''" iterTimeout 1]
      iterTimeout_connectFailed hp0_open
    by (simp add: l connectFailed_def)
qed

text \<open>
  C10. A call of \<^verbatim>\<open>DirectConnect(p)\<close> rejected at admission returns the
  coordinator as it found it and makes no call on any collaborator. On a closed
  coordinator the error is \<^verbatim>\<open>ErrClosed\<close> whatever \<open>active\<close> holds, also when
  an attempt to \<open>p\<close> is active; on an open one with \<open>p\<close> active it is
  \<^verbatim>\<open>ErrHolePunchActive\<close>. In a run of concurrent calls the rejected call is
  a task that has returned, and every other task is as it was.
\<close>

theorem rejected_call_leaves_active:
  "(closed hp \<longrightarrow> DirectConnect h hp env p = (hp, Some ErrClosed, []) \<and>
      beginDirectConnect (hp\<lparr>active := A\<rparr>) p = (hp\<lparr>active := A\<rparr>, Some ErrClosed)) \<and>
   (\<not> closed hp \<and> p \<in> active hp \<longrightarrow>
      DirectConnect h hp env p = (hp, Some ErrHolePunchActive, [])) \<and>
   (closed (coord s) \<or> p \<in> active (coord s) \<longrightarrow>
      step h s (ACall p) =
        s\<lparr>tasks := tasks s @
             [Finished (Some (if closed (coord s) then ErrClosed else ErrHolePunchActive))]\<rparr>)"
  by (auto simp add: DirectConnect_def beginDirectConnect_def admit_def)

theorem rejected_call_leaves_active_witness:
  "''QmB'' \<in> active hpBusy \<and> ''QmB'' \<in> active hpBusyClosed \<and>
   DirectConnect h0 hpBusy envAllTimeout ''QmB'' = (hpBusy, Some ErrHolePunchActive, []) \<and>
   DirectConnect h0 hpBusyClosed envAllTimeout ''QmB'' = (hpBusyClosed, Some ErrClosed, [])"
proof -
  have a: "\<not> closed hpBusy \<and> ''QmB'' \<in> active hpBusy"
    by (simp add: hpBusy_def hp0_def newHolePuncher_def)
  have b: "closed hpBusyClosed \<and> ''QmB'' \<in> active hpBusyClosed"
    by (simp add: hpBusyClosed_def hpBusy_def hp0_def newHolePuncher_def)
  show ?thesis
    using rejected_call_leaves_active [of hpBusy h0 envAllTimeout "''QmB''"] a
      rejected_call_leaves_active [of hpBusyClosed h0 envAllTimeout "''QmB''"] b
    by simp
qed

end
